theory Spec2Isabelle
  imports
    Main
    "HOL-Library.AList"
    "HOL-Library.Char_ord"
    "HOL-Library.List_Lexorder"
    "HOL-Library.Sublist"
    "HOL-Library.Multiset"
begin

section \<open>Strings, records and the blob store\<close>

text \<open>
  A JavaScript string is modelled as a \<^typ>\<open>string\<close>, a list of characters of 8 bits: the
  strings whose UTF-16 code units are below 256. The length of a string is its number
  of code units; its number of UTF-8 bytes is another number when a code unit is above
  127, and is defined where the program encodes a string. The operator \<open><\<close> of
  JavaScript on strings is the lexicographic order on code units: the order of the
  theory \<open>List_Lexorder\<close> over \<open>Char_ord\<close>.

  A \<open>Record<string, T>\<close> is modelled as an association list in property order, which is
  insertion order for keys that are not canonical array indices. The hours, episode ids,
  audience ids, blob keys and dimension names of this program are not; metro codes, the
  labels of one dimension, are, and no statement below is about their order.
  \<open>obj[k]\<close> is \<^const>\<open>map_of\<close>, the assignment \<open>obj[k] = v\<close> is \<^const>\<open>AList.update\<close>: it
  replaces the value in place when the key is there and appends the pair otherwise.
\<close>

type_synonym 'a jsrecord = "(string \<times> 'a) list"

text \<open>
  Modelled from the spec: the blob store adapter (\<open>blobs.ts\<close>) is not part of the
  sources. Section 4.A: a flat key space; \<open>list({keyPrefix})\<close> returns all keys that
  start with the prefix, \<open>get\<close> returns \<open>undefined\<close> for a missing key, \<open>put\<close> stores
  a body under a key, in the place of the one that was there.
\<close>

type_synonym 'b blobs = "(string \<times> 'b) list"

definition blobs_list :: "'b blobs \<Rightarrow> string \<Rightarrow> string list" where
  "blobs_list store keyPrefix = [k \<leftarrow> map fst store. prefix keyPrefix k]"

definition blobs_get :: "'b blobs \<Rightarrow> string \<Rightarrow> 'b option" where
  "blobs_get store key = map_of store key"

definition blobs_put :: "'b blobs \<Rightarrow> string \<Rightarrow> 'b \<Rightarrow> 'b blobs" where
  "blobs_put store key v = AList.update key v store"

section \<open>Errors and imported functions\<close>

text \<open>
  Every \<open>throw\<close> of the modelled functions is a value of \<open>error\<close>; a function that can
  throw returns \<open>error + 'a\<close>, with \<open>Inl\<close> for the exception.
\<close>

datatype error =
    CheckFailed string
  | ShowDailyNotFound string string
  | UndefinedTime
  | FailedToFindKey string
  | UnsupportedNumParts nat
  | LengthMismatch nat nat
  | StorageError string
  | ErrorPuttingAudienceSummary string string error
  | ImportedError string

text \<open>
  \<^item> \<open>CheckFailed name\<close>: \<open>check(name, value, isValid)\<close> or \<open>checkMatches(name, ...)\<close> of
    \<open>check.ts\<close> rejected the value;
  \<^item> \<open>ShowDailyNotFound showUuid date\<close>: \<open>Show-daily not found\<close> in
    \<open>computeShowSummaryForDate\<close>;
  \<^item> \<open>UndefinedTime\<close>: \<open>Undefined time\<close> in \<open>computeShowSummaryForDate\<close>;
  \<^item> \<open>FailedToFindKey key\<close>: \<open>Failed to find key\<close> in \<open>recomputeAudienceForMonth\<close>;
  \<^item> \<open>UnsupportedNumParts numParts\<close>: \<open>Unsupported numParts\<close> in \<open>recomputeAudienceForMonth\<close>;
  \<^item> \<open>LengthMismatch declared written\<close>: the fixed-length stream saw another number of
    bytes than was declared;
  \<^item> \<open>StorageError message\<close>: an error raised by the blob store adapter;
  \<^item> \<open>ErrorPuttingAudienceSummary month showUuid e\<close>: the error that
    \<open>putAudienceSummary\<close> throws in place of \<open>e\<close>;
  \<^item> \<open>ImportedError message\<close>: an error raised inside an imported function.
\<close>

text \<open>
  The functions that the modelled files import from files that are not part of the
  sources (\<open>check.ts\<close>, \<open>uuid.ts\<close>, \<open>timestamp.ts\<close>, \<open>downloads.ts\<close>,
  \<open>r2_bucket_blobs.ts\<close>) are parameters of the model: every modelled function takes
  them as a record, and the theorems hold for every choice of them.
\<close>

record imported =
  isValidUuid :: "string \<Rightarrow> bool"
  isValidMonth :: "string \<Rightarrow> bool"
  isValidDate :: "string \<Rightarrow> bool"
  tryParseInt :: "string option \<Rightarrow> int option"
  computeTimestamp :: "string \<Rightarrow> error + string"
  computeShowDailyKey :: "string \<Rightarrow> string \<Rightarrow> string"
  isRetryableErrorFromR2 :: "error \<Rightarrow> bool"

text \<open>
  Modelled from the spec: \<open>check\<close> of \<open>check.ts\<close> is not part of the sources. It throws
  unless the validator accepts the value; an \<open>undefined\<close> value is not accepted.
\<close>

definition check :: "string \<Rightarrow> string option \<Rightarrow> (string \<Rightarrow> bool) \<Rightarrow> error + string" where
  "check name v isValid =
     (case v of
        None \<Rightarrow> Inl (CheckFailed name)
      | Some s \<Rightarrow> if isValid s then Inr s else Inl (CheckFailed name))"

text \<open>The truthiness of an optional string: \<open>undefined\<close> and the empty string are falsy.\<close>

definition truthy :: "string option \<Rightarrow> bool" where
  "truthy v = (case v of None \<Rightarrow> False | Some s \<Rightarrow> s \<noteq> [])"

text \<open>A destructuring default, \<open>{ x = d } = obj\<close>: the default stands for \<open>undefined\<close> only.\<close>

definition orDefault :: "string option \<Rightarrow> string \<Rightarrow> string" where
  "orDefault v d = (case v of None \<Rightarrow> d | Some s \<Rightarrow> s)"

text \<open>\<open>str.split(sep)\<close> for a separator of one character.\<close>

fun split_str :: "char \<Rightarrow> string \<Rightarrow> string list" where
  "split_str sep [] = [[]]"
| "split_str sep (c # cs) =
     (if c = sep then [] # split_str sep cs
      else (case split_str sep cs of
              [] \<Rightarrow> [[c]]
            | w # ws \<Rightarrow> (c # w) # ws))"

section \<open>The summary accumulator (summaries.ts)\<close>

text \<open>
  Modelled from the spec: \<open>summaries.ts\<close> is not part of the sources. Section 4.C:
  \<open>increment(map, key)\<close> is \<open>map[key] = (map[key] ?? 0) + 1\<close>, \<open>incrementAll(dest, src)\<close> is
  \<open>dest[k] += src[k]\<close> for every \<open>k\<close> in \<open>src\<close> (from 0 where \<open>dest\<close> has no \<open>k\<close>), and
  \<open>total(map)\<close> is the sum of the values. Counts are integers.
\<close>

definition incrementBy :: "int jsrecord \<Rightarrow> string \<Rightarrow> int \<Rightarrow> int jsrecord" where
  "incrementBy m key delta =
     AList.update key ((case map_of m key of None \<Rightarrow> 0 | Some n \<Rightarrow> n) + delta) m"

definition increment :: "int jsrecord \<Rightarrow> string \<Rightarrow> int jsrecord" where
  "increment m key = incrementBy m key 1"

definition incrementAll :: "int jsrecord \<Rightarrow> int jsrecord \<Rightarrow> int jsrecord" where
  "incrementAll dest src = foldl (\<lambda>d (k, v). incrementBy d k v) dest src"

definition total :: "int jsrecord \<Rightarrow> int" where
  "total m = sum_list (map snd m)"

section \<open>Summaries (show_summaries.ts)\<close>

record EpisodeSummary =
  hourlyDownloads :: "int jsrecord"
  firstHour :: string

record ShowSummary =
  showUuid :: string
  period :: string
  hourlyDownloads :: "int jsrecord"
  episodes :: "EpisodeSummary jsrecord"
  sources :: "string jsrecord"
  dimensionDownloads :: "int jsrecord jsrecord option"

subsection \<open>Summary objects and their serialization\<close>

text \<open>
  \<open>computeSorted\<close> is generic over JavaScript values, and what \<open>JSON.stringify\<close> writes is
  the object's properties in property order. A value is therefore modelled as a tree
  whose objects are property lists; the JSON text of a value is represented by the
  value itself.
\<close>

datatype jsval =
    JString string
  | JNumber int
  | JArray "jsval list"
  | JObject "(string \<times> jsval) list"

text \<open>
  \<open>sortBy\<close> (the standard collections module, through \<open>deps.ts\<close>) sorts by the selected
  key in ascending order and is stable; \<open>Object.fromEntries\<close> keeps the order of the
  entries. \<open>isStringRecord\<close> (\<open>check.ts\<close>) holds of plain objects.
\<close>

definition computeSortedRecord :: "(string \<times> 'a) list \<Rightarrow> (string \<times> 'a) list" where
  "computeSortedRecord record = sort_key fst record"

fun computeSorted :: "jsval \<Rightarrow> jsval" where
  "computeSorted (JArray vs) = JArray (map computeSorted vs)"
| "computeSorted (JObject record) = JObject (computeSortedRecord record)"
| "computeSorted obj = obj"

text \<open>The object literals of the source, built from typed parts.\<close>

definition numberRecord :: "int jsrecord \<Rightarrow> jsval" where
  "numberRecord m = JObject (map (\<lambda>(k, n). (k, JNumber n)) m)"

definition stringRecord :: "string jsrecord \<Rightarrow> jsval" where
  "stringRecord m = JObject (map (\<lambda>(k, s). (k, JString s)) m)"

text \<open>\<open>{ hourlyDownloads: ..., firstHour: ... }\<close>\<close>

definition episodeObject :: "EpisodeSummary \<Rightarrow> jsval" where
  "episodeObject e =
     JObject [(''hourlyDownloads'', numberRecord (EpisodeSummary.hourlyDownloads e)),
              (''firstHour'', JString (firstHour e))]"

definition episodesObject :: "EpisodeSummary jsrecord \<Rightarrow> jsval" where
  "episodesObject m = JObject (map (\<lambda>(k, e). (k, episodeObject e)) m)"

definition dimensionsObject :: "int jsrecord jsrecord \<Rightarrow> jsval" where
  "dimensionsObject m = JObject (map (\<lambda>(k, d). (k, numberRecord d)) m)"

text \<open>
  \<open>{ showUuid, period, hourlyDownloads, episodes, dimensionDownloads, sources }\<close>, the
  literal of \<open>computeShowSummaryForDate\<close> and of \<open>computeShowSummaryAggregate\<close>.
\<close>

definition summaryObject ::
  "string \<Rightarrow> string \<Rightarrow> int jsrecord \<Rightarrow> EpisodeSummary jsrecord \<Rightarrow> int jsrecord jsrecord
     \<Rightarrow> string jsrecord \<Rightarrow> jsval" where
  "summaryObject uuid per hourly eps dims srcs =
     JObject [(''showUuid'', JString uuid),
              (''period'', JString per),
              (''hourlyDownloads'', numberRecord hourly),
              (''episodes'', episodesObject eps),
              (''dimensionDownloads'', dimensionsObject dims),
              (''sources'', stringRecord srcs)]"

text \<open>
  The typed reading of a summary object (the cast \<open>as ShowSummary\<close> of the source):
  \<open>obj.name\<close> is the lookup of the property, \<open>Object.entries\<close> the property list.
\<close>

fun entries :: "jsval \<Rightarrow> (string \<times> jsval) list" where
  "entries (JObject kvs) = kvs"
| "entries v = []"

definition getProp :: "jsval \<Rightarrow> string \<Rightarrow> jsval option" where
  "getProp obj name = map_of (entries obj) name"

fun asString :: "jsval option \<Rightarrow> string" where
  "asString (Some (JString s)) = s"
| "asString v = []"

fun asNumber :: "jsval \<Rightarrow> int" where
  "asNumber (JNumber n) = n"
| "asNumber v = 0"

definition asNumberRecord :: "jsval option \<Rightarrow> int jsrecord" where
  "asNumberRecord v = (case v of None \<Rightarrow> [] | Some obj \<Rightarrow> map (\<lambda>(k, n). (k, asNumber n)) (entries obj))"

definition asStringRecord :: "jsval option \<Rightarrow> string jsrecord" where
  "asStringRecord v = (case v of None \<Rightarrow> [] | Some obj \<Rightarrow> map (\<lambda>(k, s). (k, asString (Some s))) (entries obj))"

definition asEpisodeSummary :: "jsval \<Rightarrow> EpisodeSummary" where
  "asEpisodeSummary obj =
     \<lparr> EpisodeSummary.hourlyDownloads = asNumberRecord (getProp obj ''hourlyDownloads''),
       firstHour = asString (getProp obj ''firstHour'') \<rparr>"

definition asShowSummary :: "jsval \<Rightarrow> ShowSummary" where
  "asShowSummary obj =
     \<lparr> ShowSummary.showUuid = asString (getProp obj ''showUuid''),
       period = asString (getProp obj ''period''),
       ShowSummary.hourlyDownloads = asNumberRecord (getProp obj ''hourlyDownloads''),
       ShowSummary.episodes = (case getProp obj ''episodes'' of
                     None \<Rightarrow> []
                   | Some eps \<Rightarrow> map (\<lambda>(k, e). (k, asEpisodeSummary e)) (entries eps)),
       ShowSummary.sources = asStringRecord (getProp obj ''sources''),
       ShowSummary.dimensionDownloads =
         (case getProp obj ''dimensionDownloads'' of
            None \<Rightarrow> None
          | Some dims \<Rightarrow> Some (map (\<lambda>(k, d). (k, asNumberRecord (Some d))) (entries dims))) \<rparr>"

subsection \<open>Keys and persistence\<close>

definition computeShowSummaryKey :: "string \<Rightarrow> string \<Rightarrow> string" where
  "computeShowSummaryKey uuid per =
     ''summaries/show/'' @ uuid @ ''/'' @ uuid @ ''-'' @ per @ ''.summary.json''"

text \<open>
  \<open>saveShowSummary\<close> puts \<open>JSON.stringify(summary)\<close> under the summary's key and returns
  the key (the ETag that the adapter answers is not modelled). The store after the put
  is returned with it.
\<close>

definition saveShowSummary :: "jsval \<Rightarrow> jsval blobs \<Rightarrow> string \<times> jsval blobs" where
  "saveShowSummary summary statsBlobs =
     (let uuid = asString (getProp summary ''showUuid'');
          per = asString (getProp summary ''period'');
          key = computeShowSummaryKey uuid per
      in (key, AList.update key summary statsBlobs))"

section \<open>The daily computer (computeShowSummaryForDate)\<close>

text \<open>
  Modelled from the spec: \<open>yieldTsvFromStream\<close> of \<open>streams.ts\<close> is not part of the
  sources. Section 4.B: it yields the records of the file in file order, each a mapping
  from column name to value in which a missing column is an absent key. A show-daily
  blob is represented by the list of its records, paired with its ETag; a record by
  the columns that \<open>computeShowSummaryForDate\<close> reads.
\<close>

record tsv_row =
  botType :: "string option"
  time :: "string option"
  episodeId :: "string option"
  audienceId :: "string option"
  countryCode :: "string option"
  continentCode :: "string option"
  regionName :: "string option"
  agentType :: "string option"
  agentName :: "string option"
  deviceType :: "string option"
  deviceName :: "string option"
  referrerType :: "string option"
  referrerName :: "string option"
  metroCode :: "string option"
  tags :: "string option"

text \<open>The four accumulators that the loop of \<open>computeShowSummaryForDate\<close> mutates.\<close>

record daily_acc =
  hourlyDownloads :: "int jsrecord"
  episodes :: "EpisodeSummary jsrecord"
  audienceTimestamps :: "string jsrecord"
  dimensionDownloads :: "int jsrecord jsrecord"

definition incrementDimension ::
  "int jsrecord jsrecord \<Rightarrow> string \<Rightarrow> string \<Rightarrow> int jsrecord jsrecord" where
  "incrementDimension dims dimension key =
     (let downloads = (case map_of dims dimension of None \<Rightarrow> [] | Some d \<Rightarrow> d)
      in AList.update dimension (increment downloads key) dims)"

text \<open>
  The calls \<open>incrementDimension(dimension, key)\<close> that the loop body makes for one
  record, in the order of the source (lines 395 to 419).
\<close>

definition dimensionIncrements :: "tsv_row \<Rightarrow> (string \<times> string) list" where
  "dimensionIncrements obj =
     (let country = orDefault (countryCode obj) ''XX'';
          continent = orDefault (continentCode obj) ''XX'';
          region = orDefault (regionName obj) ''Unknown'';
          agentT = orDefault (agentType obj) ''unknown'';
          agentN = orDefault (agentName obj) ''Unknown'';
          deviceT = orDefault (deviceType obj) ''unknown'';
          deviceN = orDefault (deviceName obj) ''Unknown'';
          referrerN = orDefault (referrerName obj) ''Unknown''
      in [(''countryCode'', country)]
         @ (if truthy (metroCode obj) then [(''metroCode'', the (metroCode obj))] else [])
         @ (if continent = ''EU'' then [(''euRegion'', region @ '', '' @ country)] else [])
         @ (if continent = ''AS'' then [(''asRegion'', region @ '', '' @ country)] else [])
         @ (if country = ''AU'' \<or> country = ''NZ''
            then [(''auRegion'', region @ '', '' @ country)] else [])
         @ (if country = ''CA'' then [(''caRegion'', region)] else [])
         @ (if (continent = ''NA'' \<or> continent = ''SA'') \<and> country \<noteq> ''US'' \<and> country \<noteq> ''CA''
            then [(''latamRegion'', region @ '', '' @ country)] else [])
         @ (if continent = ''AF'' then [(''afRegion'', region @ '', '' @ country)] else [])
         @ (if agentT = ''app'' then [(''appName'', agentN)]
            else if agentT = ''browser''
              then [(''browserName'', agentN)]
                   @ (if truthy (referrerType obj)
                      then [(''referrer'', the (referrerType obj) @ ''.'' @ referrerN)] else [])
            else if agentT = ''library'' then [(''libraryName'', agentN)]
            else [])
         @ [(''deviceType'', deviceT)]
         @ [(''deviceName'', deviceN)]
         @ (if truthy (tags obj)
            then map (\<lambda>tag. (''tag'', tag)) (split_str CHR '','' (the (tags obj))) else []))"

text \<open>Lines 383 to 394: the episode of the record, when it has one.\<close>

definition recordEpisode ::
  "EpisodeSummary jsrecord \<Rightarrow> string \<Rightarrow> string \<Rightarrow> EpisodeSummary jsrecord" where
  "recordEpisode eps eid hour =
     (let rec = (case map_of eps eid of
                   None \<Rightarrow> \<lparr> EpisodeSummary.hourlyDownloads = [], firstHour = hour \<rparr>
                 | Some r \<Rightarrow> r);
          rec = (if hour < firstHour rec then rec\<lparr> firstHour := hour \<rparr> else rec)
      in AList.update eid
           (rec\<lparr> EpisodeSummary.hourlyDownloads :=
                   increment (EpisodeSummary.hourlyDownloads rec) hour \<rparr>) eps)"

text \<open>
  The body of the loop (lines 377 to 419) for one record: the error it throws, or the
  accumulators after it.
\<close>

definition processRow :: "imported \<Rightarrow> daily_acc \<Rightarrow> tsv_row \<Rightarrow> error + daily_acc" where
  "processRow env acc obj =
     (case time obj of
        None \<Rightarrow> Inl UndefinedTime
      | Some t \<Rightarrow>
          let hour = take 13 t in
          if botType obj \<noteq> None then Inr acc
          else
            (case (if truthy (audienceId obj)
                      \<and> \<not> truthy (map_of (audienceTimestamps acc) (the (audienceId obj)))
                   then (case computeTimestamp env t of
                           Inl e \<Rightarrow> Inl e
                         | Inr ts \<Rightarrow>
                             Inr (AList.update (the (audienceId obj)) ts (audienceTimestamps acc)))
                   else Inr (audienceTimestamps acc)) of
               Inl e \<Rightarrow> Inl e
             | Inr audience \<Rightarrow>
                 Inr \<lparr> daily_acc.hourlyDownloads = increment (daily_acc.hourlyDownloads acc) hour,
                       daily_acc.episodes =
                         (case episodeId obj of
                            None \<Rightarrow> daily_acc.episodes acc
                          | Some eid \<Rightarrow> recordEpisode (daily_acc.episodes acc) eid hour),
                       audienceTimestamps = audience,
                       daily_acc.dimensionDownloads =
                         foldl (\<lambda>dims (dimension, key). incrementDimension dims dimension key)
                           (daily_acc.dimensionDownloads acc) (dimensionIncrements obj) \<rparr>))"

fun processRows :: "imported \<Rightarrow> daily_acc \<Rightarrow> tsv_row list \<Rightarrow> error + daily_acc" where
  "processRows env acc [] = Inr acc"
| "processRows env acc (obj # rest) =
     (case processRow env acc obj of
        Inl e \<Rightarrow> Inl e
      | Inr acc' \<Rightarrow> processRows env acc' rest)"

definition computeShowSummaryForDate ::
  "imported \<Rightarrow> string \<Rightarrow> string \<Rightarrow> (tsv_row list \<times> string) blobs
     \<Rightarrow> error + (jsval \<times> string jsrecord)" where
  "computeShowSummaryForDate env uuid date statsBlobs =
     (let key = computeShowDailyKey env uuid date in
      case blobs_get statsBlobs key of
        None \<Rightarrow> Inl (ShowDailyNotFound uuid date)
      | Some (stream, etag) \<Rightarrow>
          (case processRows env
                  \<lparr> daily_acc.hourlyDownloads = [], daily_acc.episodes = [],
                    audienceTimestamps = [], daily_acc.dimensionDownloads = [] \<rparr> stream of
             Inl e \<Rightarrow> Inl e
           | Inr acc \<Rightarrow>
               Inr (computeSorted
                      (summaryObject uuid date (daily_acc.hourlyDownloads acc)
                         (daily_acc.episodes acc) (daily_acc.dimensionDownloads acc)
                         [(key, etag)]),
                    audienceTimestamps acc)))"

section \<open>The monthly aggregator (computeShowSummaryAggregate)\<close>

text \<open>
  The blob of a stored summary is represented by the summary that its text parses to
  (the source casts \<open>JSON.parse(text) as ShowSummary\<close> without a check), paired with its
  ETag. A \<open>get\<close> finds the blob or reports it missing.
\<close>

record aggregate_acc =
  hourlyDownloads :: "int jsrecord"
  sources :: "string jsrecord"
  episodes :: "EpisodeSummary jsrecord"
  dimensionDownloads :: "int jsrecord jsrecord"

text \<open>Lines 325 to 332, for one entry of \<open>summary.dimensionDownloads\<close>.\<close>

definition aggregateDimension ::
  "int jsrecord jsrecord \<Rightarrow> string \<times> int jsrecord \<Rightarrow> int jsrecord jsrecord" where
  "aggregateDimension dims = (\<lambda>(dimension, downloads).
     let rec = (case map_of dims dimension of None \<Rightarrow> [] | Some r \<Rightarrow> r)
     in AList.update dimension (incrementAll rec downloads) dims)"

text \<open>Lines 334 to 345, for one entry of \<open>summary.episodes\<close>.\<close>

definition aggregateEpisode ::
  "EpisodeSummary jsrecord \<Rightarrow> string \<times> EpisodeSummary \<Rightarrow> EpisodeSummary jsrecord" where
  "aggregateEpisode eps = (\<lambda>(eid, epSummary).
     let rec = (case map_of eps eid of
                  None \<Rightarrow> \<lparr> EpisodeSummary.hourlyDownloads = [],
                             firstHour = firstHour epSummary \<rparr>
                | Some r \<Rightarrow> r);
         rec = (if firstHour epSummary < firstHour rec
                then rec\<lparr> firstHour := firstHour epSummary \<rparr> else rec)
     in AList.update eid
          (rec\<lparr> EpisodeSummary.hourlyDownloads :=
                  incrementAll (EpisodeSummary.hourlyDownloads rec)
                    (EpisodeSummary.hourlyDownloads epSummary) \<rparr>) eps)"

text \<open>The body of the loop over the results (lines 321 to 346).\<close>

definition aggregateResult ::
  "aggregate_acc \<Rightarrow> string \<times> (ShowSummary \<times> string) option \<Rightarrow> aggregate_acc" where
  "aggregateResult acc = (\<lambda>(key, result).
     case result of
       None \<Rightarrow> acc
     | Some (summary, etag) \<Rightarrow>
         \<lparr> aggregate_acc.hourlyDownloads =
             incrementAll (aggregate_acc.hourlyDownloads acc) (ShowSummary.hourlyDownloads summary),
           aggregate_acc.sources = AList.update key etag (aggregate_acc.sources acc),
           aggregate_acc.episodes =
             foldl aggregateEpisode (aggregate_acc.episodes acc) (ShowSummary.episodes summary),
           aggregate_acc.dimensionDownloads =
             foldl aggregateDimension (aggregate_acc.dimensionDownloads acc)
               (case ShowSummary.dimensionDownloads summary of None \<Rightarrow> [] | Some dims \<Rightarrow> dims) \<rparr>)"

definition computeShowSummaryAggregate ::
  "string \<Rightarrow> string list \<Rightarrow> string \<Rightarrow> (ShowSummary \<times> string) blobs \<Rightarrow> jsval" where
  "computeShowSummaryAggregate uuid inputKeys outputPeriod statsBlobs =
     (let results = map (\<lambda>v. (v, blobs_get statsBlobs v)) inputKeys;
          acc = foldl aggregateResult
                  \<lparr> aggregate_acc.hourlyDownloads = [], aggregate_acc.sources = [],
                    aggregate_acc.episodes = [], aggregate_acc.dimensionDownloads = [] \<rparr>
                  results
      in computeSorted
           (summaryObject uuid outputPeriod (aggregate_acc.hourlyDownloads acc)
              (aggregate_acc.episodes acc) (aggregate_acc.dimensionDownloads acc)
              (aggregate_acc.sources acc)))"

section \<open>The overall merge (tryComputeNewOverall)\<close>

text \<open>
  The body of the loop (lines 502 to 506) on the overall summary \<open>rt\<close> and the flag
  \<open>changed\<close>. The source mutates \<open>rt.episodes\<close> in place; \<open>rt\<close> is the loaded overall
  when there is one, which the caller drops when the function returns \<open>undefined\<close>.
\<close>

definition overallStep ::
  "ShowSummary \<times> bool \<Rightarrow> string \<times> EpisodeSummary \<Rightarrow> ShowSummary \<times> bool" where
  "overallStep = (\<lambda>(rt, changed) (eid, epSummary).
     let existingEpSummary = map_of (ShowSummary.episodes rt) eid in
     if existingEpSummary = None \<or> firstHour epSummary < firstHour (the existingEpSummary)
     then (rt\<lparr> ShowSummary.episodes :=
                 AList.update eid
                   ((case existingEpSummary of
                       None \<Rightarrow> \<lparr> EpisodeSummary.hourlyDownloads = [],
                                  firstHour = firstHour epSummary \<rparr>
                     | Some e \<Rightarrow> e\<lparr> firstHour := firstHour epSummary \<rparr>))
                   (ShowSummary.episodes rt) \<rparr>, True)
     else (rt, changed))"

definition tryComputeNewOverall :: "ShowSummary option \<Rightarrow> ShowSummary \<Rightarrow> ShowSummary option" where
  "tryComputeNewOverall overall summary =
     (let rt = (case overall of
                  Some ov \<Rightarrow> ov
                | None \<Rightarrow> \<lparr> ShowSummary.showUuid = ShowSummary.showUuid summary, period = ''overall'',
                             ShowSummary.hourlyDownloads = [], ShowSummary.episodes = [],
                             ShowSummary.sources = [], ShowSummary.dimensionDownloads = None \<rparr>);
          changed = (overall = None);
          (rt', changed') = foldl overallStep (rt, changed) (ShowSummary.episodes summary)
      in if changed' then Some rt' else None)"

text \<open>
  The overall summary of a show after one aggregates phase (lines 286 to 293 of
  \<open>recomputeShowSummariesForMonth\<close>): the stored overall is loaded, and the new overall
  is saved over it when \<open>tryComputeNewOverall\<close> returns one. Several phases in a row
  fold their month summaries into the stored overall.
\<close>

definition mergeIntoOverall :: "ShowSummary option \<Rightarrow> ShowSummary \<Rightarrow> ShowSummary option" where
  "mergeIntoOverall overall summary =
     (case tryComputeNewOverall overall summary of
        Some newOverall \<Rightarrow> Some newOverall
      | None \<Rightarrow> overall)"

definition mergeAllIntoOverall ::
  "ShowSummary option \<Rightarrow> ShowSummary list \<Rightarrow> ShowSummary option" where
  "mergeAllIntoOverall overall summaries = foldl mergeIntoOverall overall summaries"

section \<open>The request parser (tryParseRecomputeShowSummariesForMonthRequest)\<close>

record RecomputeShowSummariesForMonthRequest =
  showUuid :: string
  month :: string
  log :: bool
  sequential :: bool
  phases :: "string list option"
  startDay :: "int option"
  maxDays :: "int option"

definition isPhase :: "string \<Rightarrow> bool" where
  "isPhase v =
     (v = ''dailies'' \<or> v = ''aggregates'' \<or> v = ''audience'' \<or> v = ''audience-1of4''
      \<or> v = ''audience-2of4'' \<or> v = ''audience-3of4'' \<or> v = ''audience-4of4'')"

text \<open>
  The result is the request, \<open>undefined\<close> (\<open>None\<close>) when the job is not for this
  operation, or the error of a failed \<open>check\<close>.
\<close>

definition tryParseRecomputeShowSummariesForMonthRequest ::
  "imported \<Rightarrow> string \<Rightarrow> string \<Rightarrow> string jsrecord option
     \<Rightarrow> error + RecomputeShowSummariesForMonthRequest option" where
  "tryParseRecomputeShowSummariesForMonthRequest env operationKind targetPath parameters =
     (if targetPath = ''/work/recompute-show-summaries'' \<and> operationKind = ''update''
         \<and> parameters \<noteq> None
      then
        (let ps = the parameters;
             flags = map_of ps ''flags'';
             phasesStr = map_of ps ''phases'';
             startDayStr = map_of ps ''startDay'';
             maxDaysStr = map_of ps ''maxDays''
         in case check ''show'' (map_of ps ''show'') (isValidUuid env) of
              Inl e \<Rightarrow> Inl e
            | Inr uuid \<Rightarrow>
                (case check ''month'' (map_of ps ''month'') (isValidMonth env) of
                   Inl e \<Rightarrow> Inl e
                 | Inr mth \<Rightarrow>
                     (let flagset = set (split_str CHR '','' (orDefault flags ''''))
                      in Inr (Some
                           \<lparr> RecomputeShowSummariesForMonthRequest.showUuid = uuid,
                             month = mth,
                             log = (''log'' \<in> flagset),
                             sequential = (''sequential'' \<in> flagset),
                             phases = (if truthy phasesStr
                                       then Some (filter isPhase
                                                    (split_str CHR '','' (the phasesStr)))
                                       else None),
                             startDay = tryParseInt env startDayStr,
                             maxDays = tryParseInt env maxDaysStr \<rparr>))))
      else Inr None)"

section \<open>Audience keys (audience.ts)\<close>

definition computeAudienceKey :: "string \<Rightarrow> string \<Rightarrow> string option \<Rightarrow> string" where
  "computeAudienceKey uuid per prt =
     ''audiences/show/'' @ uuid @ ''/'' @ uuid @ ''-'' @ per @ ''.''
       @ (case prt of None \<Rightarrow> ''all'' | Some p \<Rightarrow> p) @ ''.audience.txt''"

definition computeAudienceKeyPrefix :: "string \<Rightarrow> string \<Rightarrow> string" where
  "computeAudienceKeyPrefix uuid mth =
     ''audiences/show/'' @ uuid @ ''/'' @ uuid @ ''-'' @ mth @ ''-''"

definition computeAudienceSummaryKey :: "string \<Rightarrow> string \<Rightarrow> string option \<Rightarrow> string" where
  "computeAudienceSummaryKey uuid per prt =
     ''audience-summaries/show/'' @ uuid @ ''/'' @ uuid @ ''-'' @ per @ ''.''
       @ (case prt of None \<Rightarrow> ''all'' | Some p \<Rightarrow> p) @ ''.audience-summary.json''"

section \<open>The audience reducer (recomputeAudienceForMonth)\<close>

subsection \<open>Unpacking an audience key\<close>

fun splitAtFirst :: "char \<Rightarrow> string \<Rightarrow> (string \<times> string) option" where
  "splitAtFirst c [] = None"
| "splitAtFirst c (x # xs) =
     (if x = c then Some ([], xs)
      else map_option (\<lambda>(before, after). (x # before, after)) (splitAtFirst c xs))"

definition stripPrefix :: "string \<Rightarrow> string \<Rightarrow> string option" where
  "stripPrefix p s = (if prefix p s then Some (drop (length p) s) else None)"

definition stripSuffix :: "string \<Rightarrow> string \<Rightarrow> string option" where
  "stripSuffix x s = (if suffix x s then Some (take (length s - length x) s) else None)"

text \<open>
  The match of the regular expression
  \<open>^audiences\/show\/(.*?)\/(.*?)-(.*?)\.(.*?)\.audience\.txt$\<close> on a key: the four
  groups, or \<open>None\<close> when the key does not match. Each group but the last is lazy and is
  followed by a literal character, so it ends at the first occurrence of that
  character; the dot matches no line terminator.
\<close>

definition matchAudienceKey :: "string \<Rightarrow> (string \<times> string \<times> string \<times> string) option" where
  "matchAudienceKey key =
     (case stripPrefix ''audiences/show/'' key of
        None \<Rightarrow> None
      | Some rest \<Rightarrow>
          (case stripSuffix ''.audience.txt'' rest of
             None \<Rightarrow> None
           | Some middle \<Rightarrow>
               if CHR 0x0A \<in> set middle \<or> CHR 0x0D \<in> set middle then None
               else
                 (case splitAtFirst CHR ''/'' middle of
                    None \<Rightarrow> None
                  | Some (g1, rest1) \<Rightarrow>
                      (case splitAtFirst CHR ''-'' rest1 of
                         None \<Rightarrow> None
                       | Some (g2, rest2) \<Rightarrow>
                           (case splitAtFirst CHR ''.'' rest2 of
                              None \<Rightarrow> None
                            | Some (g3, g4) \<Rightarrow> Some (g1, g2, g3, g4))))))"

text \<open>\<open>unpackAudienceKey\<close>: the show, the period and the part of the key.\<close>

definition unpackAudienceKey :: "imported \<Rightarrow> string \<Rightarrow> error + (string \<times> string \<times> string option)" where
  "unpackAudienceKey env key =
     (case matchAudienceKey key of
        None \<Rightarrow> Inl (CheckFailed ''key'')
      | Some (uuid, uuid2, per, partStr) \<Rightarrow>
          if uuid = uuid2 \<and> isValidUuid env uuid \<and> (isValidDate env per \<or> isValidMonth env per)
          then Inr (uuid, per, if partStr = ''all'' then None else Some partStr)
          else Inl (CheckFailed ''key''))"

subsection \<open>Reading the daily audience files\<close>

text \<open>
  Modelled from the spec: \<open>computeLinestream\<close> of \<open>streams.ts\<close> is not part of the
  sources. Section 3: an audience blob is a newline-delimited file. The lines of a
  text are its pieces between the line feeds, in order; the piece after the last line
  feed is the last of them.
\<close>

definition computeLinestream :: "string \<Rightarrow> string list" where
  "computeLinestream stream = split_str (CHR 0x0A) stream"

record audience_acc =
  audienceTimestamps :: "string jsrecord"
  dailyFoundAudience :: "int jsrecord"
  count :: nat

text \<open>Lines 25 and 28: the part of a line, for four and for eight parts.\<close>

definition linePartNum4 :: "string \<Rightarrow> nat" where
  "linePartNum4 line =
     (if line < ''4'' then 1 else if line < ''8'' then 2 else if line < ''c'' then 3 else 4)"

definition linePartNum8 :: "string \<Rightarrow> nat" where
  "linePartNum8 line =
     (if line < ''2'' then 1 else if line < ''4'' then 2 else if line < ''6'' then 3
      else if line < ''8'' then 4 else if line < ''a'' then 5 else if line < ''c'' then 6
      else if line < ''e'' then 7 else 8)"

text \<open>
  \<open>audienceTimestamps\<close> is a plain object (line 11), so the lookup of line 37 also finds
  what the object inherits from \<open>Object.prototype\<close>: its members, on the platform of the
  program, are the ones below, and each is an object or a function, hence truthy.
\<close>

definition objectPrototypeMembers :: "string list" where
  "objectPrototypeMembers =
     [''constructor'', ''hasOwnProperty'', ''isPrototypeOf'', ''propertyIsEnumerable'',
      ''toLocaleString'', ''toString'', ''valueOf'', ''__proto__'',
      ''__defineGetter__'', ''__defineSetter__'', ''__lookupGetter__'',
      ''__lookupSetter__'']"

text \<open>Whether \<open>obj[key]\<close> is truthy, for a plain object whose own values are strings.\<close>

definition truthyProperty :: "string jsrecord \<Rightarrow> string \<Rightarrow> bool" where
  "truthyProperty obj key =
     (case map_of obj key of
        Some v \<Rightarrow> truthy (Some v)
      | None \<Rightarrow> key \<in> set objectPrototypeMembers)"

text \<open>Lines 34 to 40: an accepted line.\<close>

definition acceptLine :: "string \<Rightarrow> audience_acc \<Rightarrow> string \<Rightarrow> audience_acc" where
  "acceptLine date acc line =
     (let aid = take 64 line;
          timestamp = take 15 (drop 65 line);
          found = increment (dailyFoundAudience acc) date
      in if \<not> truthyProperty (audience_acc.audienceTimestamps acc) aid
         then \<lparr> audience_acc.audienceTimestamps =
                  AList.update aid timestamp (audience_acc.audienceTimestamps acc),
                dailyFoundAudience = found,
                audience_acc.count = audience_acc.count acc + 1 \<rparr>
         else acc\<lparr> dailyFoundAudience := found \<rparr>)"

text \<open>Lines 21 to 40: the body of the loop over the lines of one file.\<close>

definition processLine ::
  "(nat \<times> nat) option \<Rightarrow> string \<Rightarrow> audience_acc \<Rightarrow> string \<Rightarrow> error + audience_acc" where
  "processLine partObj date acc line =
     (if length line = 0 then Inr acc
      else
        (case partObj of
           None \<Rightarrow> Inr (acceptLine date acc line)
         | Some (partNum, numParts) \<Rightarrow>
             if numParts = 4
             then (if linePartNum4 line \<noteq> partNum then Inr acc
                   else Inr (acceptLine date acc line))
             else if numParts = 8
             then (if linePartNum8 line \<noteq> partNum then Inr acc
                   else Inr (acceptLine date acc line))
             else Inl (UnsupportedNumParts numParts)))"

fun processLines ::
  "(nat \<times> nat) option \<Rightarrow> string \<Rightarrow> audience_acc \<Rightarrow> string list \<Rightarrow> error + audience_acc" where
  "processLines partObj date acc [] = Inr acc"
| "processLines partObj date acc (line # rest) =
     (case processLine partObj date acc line of
        Inl e \<Rightarrow> Inl e
      | Inr acc' \<Rightarrow> processLines partObj date acc' rest)"

text \<open>Lines 16 to 41: the body of the loop over the listed keys.\<close>

definition processAudienceKey ::
  "imported \<Rightarrow> string blobs \<Rightarrow> (nat \<times> nat) option \<Rightarrow> audience_acc \<Rightarrow> string
     \<Rightarrow> error + audience_acc" where
  "processAudienceKey env statsBlobs partObj acc key =
     (case blobs_get statsBlobs key of
        None \<Rightarrow> Inl (FailedToFindKey key)
      | Some stream \<Rightarrow>
          (case unpackAudienceKey env key of
             Inl e \<Rightarrow> Inl e
           | Inr (uuid, date, prt) \<Rightarrow>
               (case check ''date'' (Some date) (isValidDate env) of
                  Inl e \<Rightarrow> Inl e
                | Inr d \<Rightarrow> processLines partObj date acc (computeLinestream stream))))"

fun processAudienceKeys ::
  "imported \<Rightarrow> string blobs \<Rightarrow> (nat \<times> nat) option \<Rightarrow> audience_acc \<Rightarrow> string list
     \<Rightarrow> error + audience_acc" where
  "processAudienceKeys env statsBlobs partObj acc [] = Inr acc"
| "processAudienceKeys env statsBlobs partObj acc (key # keys) =
     (case processAudienceKey env statsBlobs partObj acc key of
        Inl e \<Rightarrow> Inl e
      | Inr acc' \<Rightarrow> processAudienceKeys env statsBlobs partObj acc' keys)"

text \<open>Lines 10 to 42: the listing and the loop.\<close>

definition collectAudience ::
  "imported \<Rightarrow> string blobs \<Rightarrow> string \<Rightarrow> string \<Rightarrow> (nat \<times> nat) option
     \<Rightarrow> error + audience_acc" where
  "collectAudience env statsBlobs uuid mth partObj =
     processAudienceKeys env statsBlobs partObj
       \<lparr> audience_acc.audienceTimestamps = [], dailyFoundAudience = [], audience_acc.count = 0 \<rparr>
       (blobs_list statsBlobs (computeAudienceKeyPrefix uuid mth))"

subsection \<open>Writing the monthly audience\<close>

text \<open>The decimal digits of a number, as a template literal prints a small integer.\<close>

fun showNat :: "nat \<Rightarrow> string" where
  "showNat n =
     (if n < 10 then [''0123456789'' ! n]
      else showNat (n div 10) @ [''0123456789'' ! (n mod 10)])"

declare showNat.simps [simp del]

text \<open>Line 12: the part as a string.\<close>

definition partString :: "(nat \<times> nat) option \<Rightarrow> string option" where
  "partString partObj =
     (case partObj of
        None \<Rightarrow> None
      | Some (partNum, numParts) \<Rightarrow> Some (showNat partNum @ ''of'' @ showNat numParts))"

text \<open>
  \<open>TextEncoder.encode\<close>: the UTF-8 bytes of a string. A code unit below 128 is one byte,
  a code unit from 128 to 255 is two.
\<close>

definition encodeUnit :: "char \<Rightarrow> char list" where
  "encodeUnit c =
     (let n = (of_char c :: nat)
      in if n < 128 then [c] else [char_of (192 + n div 64), char_of (128 + n mod 64)])"

definition encode :: "string \<Rightarrow> char list" where
  "encode s = concat (map encodeUnit s)"

text \<open>
  Lines 53 to 55: the text that \<open>putAudience\<close> writes, one line for each key of
  \<open>audienceTimestamps\<close> in the order of \<open>Object.keys\<close> (insertion order: an audience id of
  64 hex digits is not a canonical array index), and the chunks of bytes that the
  writer receives for it.
\<close>

definition audienceLines :: "string jsrecord \<Rightarrow> string" where
  "audienceLines timestamps =
     concat (map (\<lambda>(aid, timestamp). aid @ [CHR 0x09] @ timestamp @ [CHR 0x0A]) timestamps)"

definition audienceChunks :: "string jsrecord \<Rightarrow> char list list" where
  "audienceChunks timestamps =
     map (\<lambda>(aid, timestamp). encode (aid @ [CHR 0x09] @ timestamp @ [CHR 0x0A])) timestamps"

text \<open>
  The body of a blob: a text, which stands for its UTF-8 bytes, or the JSON text of a
  value. The audience summary is the object
  \<open>{ showUuid, period, part, dailyFoundAudience }\<close>, in which \<open>JSON.stringify\<close> leaves an
  \<open>undefined\<close> part out.
\<close>

datatype body = Text string | Json jsval

definition audienceSummaryObject ::
  "string \<Rightarrow> string \<Rightarrow> string option \<Rightarrow> int jsrecord \<Rightarrow> jsval" where
  "audienceSummaryObject uuid mth prt found =
     JObject ([(''showUuid'', JString uuid), (''period'', JString mth)]
              @ (case prt of None \<Rightarrow> [] | Some p \<Rightarrow> [(''part'', JString p)])
              @ [(''dailyFoundAudience'', numberRecord found)])"

text \<open>
  Modelled from the spec: the store's \<open>put\<close> and the platform's \<open>FixedLengthStream\<close> are
  not part of the sources. A \<open>put\<close> succeeds or raises an error of the store; the
  outcome of each call is a parameter, \<open>putOutcome key n\<close> for the call number \<open>n\<close>
  (from 0) with that key. Section 6, fixed-length stream contract: the write is
  rejected when the number of bytes written differs from the length declared.
\<close>

definition putAudience ::
  "(string \<Rightarrow> nat \<Rightarrow> error option) \<Rightarrow> string \<Rightarrow> nat \<Rightarrow> char list list \<Rightarrow> nat
     \<Rightarrow> error + unit" where
  "putAudience putOutcome audiencePartKey contentLength chunks attempt =
     (if length (concat chunks) \<noteq> contentLength
      then Inl (LengthMismatch contentLength (length (concat chunks)))
      else (case putOutcome audiencePartKey attempt of
              Some e \<Rightarrow> Inl e
            | None \<Rightarrow> Inr ()))"

text \<open>
  Modelled from the spec: \<open>executeWithRetries\<close> of \<open>sleep.ts\<close> is not part of the
  sources. Section 4.F, step 8: a bounded retry that consults the retryable
  classifier. The function is called again after a retryable error, at most
  \<open>maxRetries\<close> times; another error, or a retryable error of the last call, propagates.
  The result comes with the number of calls made.
\<close>

fun retryFrom ::
  "(nat \<Rightarrow> error + 'a) \<Rightarrow> (error \<Rightarrow> bool) \<Rightarrow> nat \<Rightarrow> nat \<Rightarrow> (error + 'a) \<times> nat" where
  "retryFrom fn isRetryable 0 attempt = (fn attempt, Suc attempt)"
| "retryFrom fn isRetryable (Suc retriesLeft) attempt =
     (case fn attempt of
        Inr v \<Rightarrow> (Inr v, Suc attempt)
      | Inl e \<Rightarrow>
          if isRetryable e then retryFrom fn isRetryable retriesLeft (Suc attempt)
          else (Inl e, Suc attempt))"

definition executeWithRetries ::
  "(nat \<Rightarrow> error + 'a) \<Rightarrow> nat \<Rightarrow> (error \<Rightarrow> bool) \<Rightarrow> (error + 'a) \<times> nat" where
  "executeWithRetries fn maxRetries isRetryable = retryFrom fn isRetryable maxRetries 0"

text \<open>Lines 63 to 70: one \<open>put\<close> of the summary, its error wrapped.\<close>

definition putAudienceSummary ::
  "(string \<Rightarrow> nat \<Rightarrow> error option) \<Rightarrow> string \<Rightarrow> string \<Rightarrow> string option \<Rightarrow> error + unit" where
  "putAudienceSummary putOutcome uuid mth prt =
     (case putOutcome (computeAudienceSummaryKey uuid mth prt) 0 of
        Some e \<Rightarrow> Inl (ErrorPuttingAudienceSummary mth uuid e)
      | None \<Rightarrow> Inr ())"

text \<open>
  Line 72: \<open>Promise.all\<close> of two promises is fulfilled when both are, and rejected with
  the rejection that comes first in time; \<open>secondFirst\<close> says that the second promise
  settles before the first.
\<close>

definition promiseAll :: "bool \<Rightarrow> error + 'a \<Rightarrow> error + 'b \<Rightarrow> error + ('a \<times> 'b)" where
  "promiseAll secondFirst p q =
     (case p of
        Inr a \<Rightarrow> (case q of Inr b \<Rightarrow> Inr (a, b) | Inl e \<Rightarrow> Inl e)
      | Inl e1 \<Rightarrow> (case q of Inr b \<Rightarrow> Inl e1 | Inl e2 \<Rightarrow> Inl (if secondFirst then e2 else e1)))"

text \<open>A call of the store's \<open>put\<close>: its key, its body, and the error it raised, if any.\<close>

record put_call =
  callKey :: string
  callBody :: body
  callError :: "error option"

record audience_result =
  audience :: nat
  contentLength :: nat
  part :: "string option"

text \<open>
  What a run of \<open>recomputeAudienceForMonth\<close> does: its outcome (the value returned or
  the error thrown) and the calls of \<open>put\<close> it makes, in the order in which they settle.
\<close>

record audience_run =
  outcome :: "error + audience_result"
  puts :: "put_call list"

text \<open>
  Lines 9 to 75. The two writes of line 72 run concurrently: both are started, neither
  waits for the other, and no rejection stops the other one. How they interleave is a
  parameter of the run: \<open>summarySettlesAfter\<close> is the number of calls of \<open>put\<close> for the
  audience blob that have settled when the \<open>put\<close> of the summary settles. The summary's
  rejection comes first when that number is below the number of calls made for the
  audience blob.
\<close>

definition recomputeAudienceForMonth ::
  "imported \<Rightarrow> string blobs \<Rightarrow> (string \<Rightarrow> nat \<Rightarrow> error option) \<Rightarrow> nat \<Rightarrow> string \<Rightarrow> string
     \<Rightarrow> (nat \<times> nat) option \<Rightarrow> audience_run" where
  "recomputeAudienceForMonth env statsBlobs putOutcome summarySettlesAfter uuid mth partObj =
     (case collectAudience env statsBlobs uuid mth partObj of
        Inl e \<Rightarrow> \<lparr> outcome = Inl e, puts = [] \<rparr>
      | Inr acc \<Rightarrow>
          (let prt = partString partObj;
               contentLength = (64 + 1 + 15 + 1) * audience_acc.count acc;
               audiencePartKey = computeAudienceKey uuid mth prt;
               chunks = audienceChunks (audience_acc.audienceTimestamps acc);
               attempt = putAudience putOutcome audiencePartKey contentLength chunks;
               (audiencePut, calls) = executeWithRetries attempt 2 (isRetryableErrorFromR2 env);
               audienceCalls =
                 map (\<lambda>n. \<lparr> callKey = audiencePartKey,
                             callBody = Text (audienceLines (audience_acc.audienceTimestamps acc)),
                             callError = (case attempt n of Inl e \<Rightarrow> Some e | Inr u \<Rightarrow> None) \<rparr>)
                   [0 ..< calls];
               summaryPut = putAudienceSummary putOutcome uuid mth prt;
               summaryCall =
                 \<lparr> callKey = computeAudienceSummaryKey uuid mth prt,
                   callBody = Json (audienceSummaryObject uuid mth prt (dailyFoundAudience acc)),
                   callError = putOutcome (computeAudienceSummaryKey uuid mth prt) 0 \<rparr>
           in \<lparr> outcome =
                  (case promiseAll (summarySettlesAfter < calls) audiencePut summaryPut of
                     Inl e \<Rightarrow> Inl e
                   | Inr u \<Rightarrow>
                       Inr \<lparr> audience = audience_acc.count acc,
                             contentLength = contentLength, part = prt \<rparr>),
                puts = take summarySettlesAfter audienceCalls @ [summaryCall]
                       @ drop summarySettlesAfter audienceCalls \<rparr>))"

text \<open>The blobs that a run leaves in the store: those of the calls that succeeded.\<close>

definition writtenBlobs :: "audience_run \<Rightarrow> (string \<times> body) list" where
  "writtenBlobs run = map (\<lambda>c. (callKey c, callBody c)) (filter (\<lambda>c. callError c = None) (puts run))"

section \<open>An instance of the imported functions\<close>

text \<open>
  To run the model on concrete inputs, the imported functions are instantiated after
  the formats that the spec gives: a month is \<open>YYYY-MM\<close>, a date \<open>YYYY-MM-DD\<close>, the
  compact timestamp of an instant is its digits, truncated to 15 characters; a show is
  identified by 32 lowercase hexadecimal digits, a show-daily blob lives under
  \<open>show-daily/<uuid>/<uuid>-<date>.tsv\<close>, and the store's error \<open>transient\<close> is the
  retryable one. The theorems do not depend on this instance.
\<close>

definition isDigit :: "char \<Rightarrow> bool" where
  "isDigit c = (CHR ''0'' \<le> c \<and> c \<le> CHR ''9'')"

definition isLowerHex :: "char \<Rightarrow> bool" where
  "isLowerHex c = (isDigit c \<or> (CHR ''a'' \<le> c \<and> c \<le> CHR ''f''))"

definition parseDigits :: "string option \<Rightarrow> int option" where
  "parseDigits v =
     (case v of
        None \<Rightarrow> None
      | Some s \<Rightarrow>
          if s \<noteq> [] \<and> list_all isDigit s
          then Some (foldl (\<lambda>n c. 10 * n + (int (of_char c) - 48)) 0 s)
          else None)"

definition exampleImported :: imported where
  "exampleImported =
     \<lparr> isValidUuid = (\<lambda>s. length s = 32 \<and> list_all isLowerHex s),
       isValidMonth = (\<lambda>s. length s = 7 \<and> list_all isDigit (take 4 s) \<and> s ! 4 = CHR ''-''
                          \<and> list_all isDigit (drop 5 s)),
       isValidDate = (\<lambda>s. length s = 10 \<and> list_all isDigit (take 4 s) \<and> s ! 4 = CHR ''-''
                          \<and> list_all isDigit (take 2 (drop 5 s)) \<and> s ! 7 = CHR ''-''
                          \<and> list_all isDigit (drop 8 s)),
       tryParseInt = parseDigits,
       computeTimestamp = (\<lambda>t. Inr (take 15 (filter isDigit t))),
       computeShowDailyKey =
         (\<lambda>uuid date. ''show-daily/'' @ uuid @ ''/'' @ uuid @ ''-'' @ date @ ''.tsv''),
       isRetryableErrorFromR2 = (\<lambda>e. e = StorageError ''transient'') \<rparr>"

text \<open>A row with no column set, and the show of the examples.\<close>

definition emptyRow :: tsv_row where
  "emptyRow =
     \<lparr> botType = None, time = None, episodeId = None, audienceId = None,
       countryCode = None, continentCode = None, regionName = None, agentType = None,
       agentName = None, deviceType = None, deviceName = None, referrerType = None,
       referrerName = None, metroCode = None, tags = None \<rparr>"

definition exampleShow :: string where
  "exampleShow = ''0123456789abcdef0123456789abcdef''"

section \<open>The vocabulary of the claims\<close>

subsection \<open>The lines a run of the audience reducer accepts\<close>

text \<open>
  The lines that a run accepts: a line is accepted when it is not empty and, for a
  run of one part, its part is the part of the run.
\<close>

definition partMatches :: "(nat \<times> nat) option \<Rightarrow> string \<Rightarrow> bool" where
  "partMatches partObj line =
     (case partObj of
        None \<Rightarrow> True
      | Some (partNum, numParts) \<Rightarrow>
          (numParts = 4 \<and> linePartNum4 line = partNum)
          \<or> (numParts = 8 \<and> linePartNum8 line = partNum))"

definition acceptsLine :: "(nat \<times> nat) option \<Rightarrow> string \<Rightarrow> bool" where
  "acceptsLine partObj line = (line \<noteq> [] \<and> partMatches partObj line)"

text \<open>
  The accepted lines of the listed files, in the order in which the run reads them,
  each with the date of its file.
\<close>

definition acceptedOfKey ::
  "imported \<Rightarrow> string blobs \<Rightarrow> (nat \<times> nat) option \<Rightarrow> string \<Rightarrow> (string \<times> string) list" where
  "acceptedOfKey env statsBlobs partObj key =
     (case blobs_get statsBlobs key of
        None \<Rightarrow> []
      | Some stream \<Rightarrow>
          (case unpackAudienceKey env key of
             Inl e \<Rightarrow> []
           | Inr (uuid, date, prt) \<Rightarrow> map (Pair date) (filter (acceptsLine partObj) (computeLinestream stream))))"

definition acceptedLines ::
  "imported \<Rightarrow> string blobs \<Rightarrow> string \<Rightarrow> string \<Rightarrow> (nat \<times> nat) option
     \<Rightarrow> (string \<times> string) list" where
  "acceptedLines env statsBlobs uuid mth partObj =
     concat (map (acceptedOfKey env statsBlobs partObj)
               (blobs_list statsBlobs (computeAudienceKeyPrefix uuid mth)))"

text \<open>
  A line of an audience file as the spec has it: 64 lowercase hex digits, a tab and
  15 more characters.
\<close>

definition audienceLine :: "string \<Rightarrow> bool" where
  "audienceLine line =
     (length line = 80 \<and> list_all isLowerHex (take 64 line) \<and> line ! 64 = CHR 0x09)"

text \<open>The accepted lines whose audience id no earlier accepted line has.\<close>

fun firstSeen :: "string set \<Rightarrow> (string \<times> string) list \<Rightarrow> string list" where
  "firstSeen seen [] = []"
| "firstSeen seen ((date, line) # rest) =
     (if take 64 line \<in> seen then firstSeen seen rest
      else line # firstSeen (insert (take 64 line) seen) rest)"

definition foldAccept :: "audience_acc \<Rightarrow> (string \<times> string) list \<Rightarrow> audience_acc" where
  "foldAccept acc dated = foldl (\<lambda>acc (date, line). acceptLine date acc line) acc dated"

definition emptyAudience :: audience_acc where
  "emptyAudience =
     \<lparr> audience_acc.audienceTimestamps = [], dailyFoundAudience = [], audience_acc.count = 0 \<rparr>"

subsection \<open>The calls of a run\<close>

text \<open>
  Line 61, once the loop has ended with the accumulator \<open>acc\<close>: the result of the bounded
  retry of \<open>putAudience\<close> and the number of calls made.
\<close>

definition putAudienceWithRetries ::
  "imported \<Rightarrow> (string \<Rightarrow> nat \<Rightarrow> error option) \<Rightarrow> string \<Rightarrow> string \<Rightarrow> (nat \<times> nat) option
     \<Rightarrow> audience_acc \<Rightarrow> (error + unit) \<times> nat" where
  "putAudienceWithRetries env putOutcome uuid mth partObj acc =
     executeWithRetries
       (putAudience putOutcome (computeAudienceKey uuid mth (partString partObj))
          (81 * audience_acc.count acc) (audienceChunks (audience_acc.audienceTimestamps acc)))
       2 (isRetryableErrorFromR2 env)"

text \<open>The calls of \<open>put\<close> for the audience blob, and the call for the summary.\<close>

definition audienceCalls ::
  "imported \<Rightarrow> (string \<Rightarrow> nat \<Rightarrow> error option) \<Rightarrow> string \<Rightarrow> string \<Rightarrow> (nat \<times> nat) option
     \<Rightarrow> audience_acc \<Rightarrow> put_call list" where
  "audienceCalls env putOutcome uuid mth partObj acc =
     map (\<lambda>n. \<lparr> callKey = computeAudienceKey uuid mth (partString partObj),
                 callBody = Text (audienceLines (audience_acc.audienceTimestamps acc)),
                 callError =
                   (case putAudience putOutcome (computeAudienceKey uuid mth (partString partObj))
                           (81 * audience_acc.count acc)
                           (audienceChunks (audience_acc.audienceTimestamps acc)) n of
                      Inl e \<Rightarrow> Some e
                    | Inr u \<Rightarrow> None) \<rparr>)
       [0 ..< snd (putAudienceWithRetries env putOutcome uuid mth partObj acc)]"

definition summaryCall ::
  "(string \<Rightarrow> nat \<Rightarrow> error option) \<Rightarrow> string \<Rightarrow> string \<Rightarrow> (nat \<times> nat) option \<Rightarrow> audience_acc
     \<Rightarrow> put_call" where
  "summaryCall putOutcome uuid mth partObj acc =
     \<lparr> callKey = computeAudienceSummaryKey uuid mth (partString partObj),
       callBody = Json (audienceSummaryObject uuid mth (partString partObj)
                          (dailyFoundAudience acc)),
       callError = putOutcome (computeAudienceSummaryKey uuid mth (partString partObj)) 0 \<rparr>"

subsection \<open>An audience store to run the reducer on\<close>

text \<open>
  One day of audience: a text of four lines, each ended by a line feed, so that its
  stream has an empty line at the end; and a monthly blob of an earlier run beside it.
\<close>

definition exampleAudienceLines :: "string list" where
  "exampleAudienceLines =
     [''0a00000000000000000000000000000000000000000000000000000000000001'' @ [CHR 0x09] @ ''240305101500000'',
      ''4b00000000000000000000000000000000000000000000000000000000000002'' @ [CHR 0x09] @ ''240305101600000'',
      ''cf00000000000000000000000000000000000000000000000000000000000003'' @ [CHR 0x09] @ ''240305101700000'',
      ''4b00000000000000000000000000000000000000000000000000000000000002'' @ [CHR 0x09] @ ''240305111600000'',
      '''']"

definition exampleAudienceText :: string where
  "exampleAudienceText = concat (map (\<lambda>l. l @ [CHR 0x0A]) (take 4 exampleAudienceLines))"

definition exampleAudienceBlobs :: "string blobs" where
  "exampleAudienceBlobs =
     [(computeAudienceKey exampleShow ''2024-03-05'' None, exampleAudienceText),
      (computeAudienceKey exampleShow ''2024-03'' None, ''not a daily file'')]"

subsection \<open>The audience ids of the accepted lines\<close>

text \<open>The audience ids of the lines that a run accepts.\<close>

definition acceptedIds ::
  "imported \<Rightarrow> string blobs \<Rightarrow> string \<Rightarrow> string \<Rightarrow> (nat \<times> nat) option \<Rightarrow> string set" where
  "acceptedIds env statsBlobs uuid mth partObj =
     (\<lambda>(date, line). take 64 line) ` set (acceptedLines env statsBlobs uuid mth partObj)"

text \<open>A text of code units below 128 has as many bytes as code units.\<close>

definition ascii :: "string \<Rightarrow> bool" where
  "ascii s = list_all (\<lambda>c. (of_char c :: nat) < 128) s"

subsection \<open>The store after a run\<close>

text \<open>
  The store after a run: the calls of \<open>put\<close> that succeeded, in the order in which they
  settled. How the store turns a body into the text that a reader gets back is the
  parameter \<open>render\<close>.
\<close>

definition storeAfter :: "(body \<Rightarrow> string) \<Rightarrow> string blobs \<Rightarrow> audience_run \<Rightarrow> string blobs" where
  "storeAfter render store run =
     foldl (\<lambda>s (key, b). blobs_put s key (render b)) store (writtenBlobs run)"

subsection \<open>Rows of a daily blob\<close>

text \<open>
  Three records of one day: a download at 11h, a bot's request at 10h, a download
  at 10h.
\<close>

definition exampleRows :: "tsv_row list" where
  "exampleRows =
     [emptyRow\<lparr> time := Some ''2024-03-05T11:01:00.000Z'', episodeId := Some ''E1'',
                audienceId := Some ''a1'' \<rparr>,
      emptyRow\<lparr> time := Some ''2024-03-05T10:15:00.000Z'', botType := Some ''bot'' \<rparr>,
      emptyRow\<lparr> time := Some ''2024-03-05T10:30:00.000Z'', countryCode := Some ''CA'' \<rparr>]"

definition exampleDailyBlobs :: "tsv_row list \<Rightarrow> (tsv_row list \<times> string) blobs" where
  "exampleDailyBlobs stream =
     [(computeShowDailyKey exampleImported exampleShow ''2024-03-05'', (stream, ''etag1''))]"

subsection \<open>What the aggregator reads\<close>

text \<open>
  The summaries that the aggregator reads: for each input key, in order, the blob
  under it when there is one.
\<close>

definition readSummaries ::
  "(ShowSummary \<times> string) blobs \<Rightarrow> string list \<Rightarrow> (string \<times> ShowSummary \<times> string) list" where
  "readSummaries statsBlobs inputKeys =
     List.map_filter
       (\<lambda>k. map_option (\<lambda>(summary, etag). (k, summary, etag)) (blobs_get statsBlobs k))
       inputKeys"

definition aggregateRead ::
  "aggregate_acc \<Rightarrow> string \<times> ShowSummary \<times> string \<Rightarrow> aggregate_acc" where
  "aggregateRead acc = (\<lambda>(k, summary, etag). aggregateResult acc (k, Some (summary, etag)))"

text \<open>The count of a key in a record of counts, and of a bucket of a dimension.\<close>

definition countOf :: "int jsrecord \<Rightarrow> string \<Rightarrow> int" where
  "countOf m k = (case map_of m k of None \<Rightarrow> 0 | Some n \<Rightarrow> n)"

definition bucketOf :: "int jsrecord jsrecord \<Rightarrow> string \<Rightarrow> string \<Rightarrow> int" where
  "bucketOf dims dimension label =
     (case map_of dims dimension of None \<Rightarrow> 0 | Some m \<Rightarrow> countOf m label)"

definition dimensionBucket :: "ShowSummary \<Rightarrow> string \<Rightarrow> string \<Rightarrow> int" where
  "dimensionBucket s dimension label =
     (case ShowSummary.dimensionDownloads s of
        None \<Rightarrow> 0
      | Some dims \<Rightarrow> bucketOf dims dimension label)"

text \<open>The keys of an object are distinct: here for the dimension maps of a summary.\<close>

definition distinctDimensions :: "ShowSummary \<Rightarrow> bool" where
  "distinctDimensions s =
     (case ShowSummary.dimensionDownloads s of
        None \<Rightarrow> True
      | Some dims \<Rightarrow> distinct (map fst dims) \<and> list_all (\<lambda>(k, m). distinct (map fst m)) dims)"

text \<open>Two stored daily summaries of one show, with hourly totals 3 and 5.\<close>

definition exampleDay1 :: ShowSummary where
  "exampleDay1 =
     \<lparr> ShowSummary.showUuid = exampleShow, period = ''2024-03-05'',
       ShowSummary.hourlyDownloads = [(''2024-03-05T10'', 2), (''2024-03-05T11'', 1)],
       ShowSummary.episodes =
         [(''E1'', \<lparr> EpisodeSummary.hourlyDownloads = [(''2024-03-05T10'', 2)],
                    firstHour = ''2024-03-05T10'' \<rparr>)],
       ShowSummary.sources = [(''day-1'', ''etag-1'')],
       ShowSummary.dimensionDownloads = Some [(''countryCode'', [(''US'', 3)])] \<rparr>"

definition exampleDay2 :: ShowSummary where
  "exampleDay2 =
     \<lparr> ShowSummary.showUuid = exampleShow, period = ''2024-03-06'',
       ShowSummary.hourlyDownloads = [(''2024-03-06T09'', 5)],
       ShowSummary.episodes =
         [(''E2'', \<lparr> EpisodeSummary.hourlyDownloads = [(''2024-03-06T09'', 4)],
                    firstHour = ''2024-03-06T09'' \<rparr>)],
       ShowSummary.sources = [(''day-2'', ''etag-2'')],
       ShowSummary.dimensionDownloads =
         Some [(''countryCode'', [(''CA'', 1), (''US'', 4)]), (''appName'', [(''Overcast'', 5)])] \<rparr>"

definition exampleSummaryBlobs :: "(ShowSummary \<times> string) blobs" where
  "exampleSummaryBlobs =
     [(''summary-05'', (exampleDay1, ''etag-a'')), (''summary-06'', (exampleDay2, ''etag-b''))]"

subsection \<open>The first hours of an overall summary\<close>

text \<open>The \<open>firstHour\<close> of each episode of a stored overall summary (none when nothing is stored).\<close>

definition overallFirstHours :: "ShowSummary option \<Rightarrow> string \<Rightarrow> string option" where
  "overallFirstHours overall eid =
     (case overall of
        None \<Rightarrow> None
      | Some ov \<Rightarrow> map_option firstHour (map_of (ShowSummary.episodes ov) eid))"

text \<open>
  The \<open>firstHour\<close>s that contribute to an episode: the one of the prior overall, when it
  has the episode, and the one of every entry for the episode in the month summaries.
\<close>

definition episodeHours :: "string \<Rightarrow> ShowSummary \<Rightarrow> string list" where
  "episodeHours eid summary =
     map (\<lambda>(k, ep). firstHour ep) (filter (\<lambda>(k, ep). k = eid) (ShowSummary.episodes summary))"

definition contributedHours :: "string \<Rightarrow> ShowSummary option \<Rightarrow> ShowSummary list \<Rightarrow> string list" where
  "contributedHours eid overall summaries =
     (case overallFirstHours overall eid of None \<Rightarrow> [] | Some h \<Rightarrow> [h])
       @ concat (map (episodeHours eid) summaries)"

text \<open>One entry of a month summary, on the map of first hours.\<close>

definition lowerFirstHour ::
  "(string \<Rightarrow> string option) \<Rightarrow> string \<times> EpisodeSummary \<Rightarrow> (string \<Rightarrow> string option)" where
  "lowerFirstHour m = (\<lambda>(eid, ep).
     m(eid \<mapsto> (case m eid of None \<Rightarrow> firstHour ep | Some h \<Rightarrow> min h (firstHour ep))))"

fun minOpt :: "string list \<Rightarrow> string option" where
  "minOpt [] = None"
| "minOpt (x # xs) = Some (case minOpt xs of None \<Rightarrow> x | Some y \<Rightarrow> min x y)"

definition overallEpisodeIds :: "ShowSummary option \<Rightarrow> string set" where
  "overallEpisodeIds overall =
     (case overall of None \<Rightarrow> {} | Some ov \<Rightarrow> fst ` set (ShowSummary.episodes ov))"

text \<open>
  Three summaries of one show: a stored overall and two month summaries.
\<close>

definition exampleOverall :: ShowSummary where
  "exampleOverall =
     \<lparr> ShowSummary.showUuid = exampleShow, period = ''overall'',
       ShowSummary.hourlyDownloads = [],
       ShowSummary.episodes =
         [(''E2'', \<lparr> EpisodeSummary.hourlyDownloads = [], firstHour = ''2024-02-10T00'' \<rparr>)],
       ShowSummary.sources = [], ShowSummary.dimensionDownloads = None \<rparr>"

definition exampleMonth1 :: ShowSummary where
  "exampleMonth1 =
     \<lparr> ShowSummary.showUuid = exampleShow, period = ''2024-03'',
       ShowSummary.hourlyDownloads = [(''2024-03-01T00'', 1)],
       ShowSummary.episodes =
         [(''E2'', \<lparr> EpisodeSummary.hourlyDownloads = [], firstHour = ''2024-01-15T12'' \<rparr>),
          (''E3'', \<lparr> EpisodeSummary.hourlyDownloads = [(''2024-03-01T00'', 1)],
                    firstHour = ''2024-03-01T00'' \<rparr>)],
       ShowSummary.sources = [], ShowSummary.dimensionDownloads = Some [] \<rparr>"

definition exampleMonth2 :: ShowSummary where
  "exampleMonth2 =
     \<lparr> ShowSummary.showUuid = exampleShow, period = ''2024-02'',
       ShowSummary.hourlyDownloads = [(''2024-02-20T05'', 1)],
       ShowSummary.episodes =
         [(''E3'', \<lparr> EpisodeSummary.hourlyDownloads = [(''2024-02-20T05'', 1)],
                    firstHour = ''2024-02-20T05'' \<rparr>)],
       ShowSummary.sources = [], ShowSummary.dimensionDownloads = Some [] \<rparr>"

subsection \<open>The key order of a summary\<close>

text \<open>
  The mappings of a summary, each with its keys in ascending order: \<open>hourlyDownloads\<close>,
  \<open>episodes\<close>, the \<open>hourlyDownloads\<close> of each episode, each map of \<open>dimensionDownloads\<close>,
  and \<open>sources\<close>.
\<close>

definition mappingsSorted :: "ShowSummary \<Rightarrow> bool" where
  "mappingsSorted s =
     (sorted (map fst (ShowSummary.hourlyDownloads s))
      \<and> sorted (map fst (ShowSummary.episodes s))
      \<and> list_all (\<lambda>(k, ep). sorted (map fst (EpisodeSummary.hourlyDownloads ep)))
           (ShowSummary.episodes s)
      \<and> (case ShowSummary.dimensionDownloads s of
            None \<Rightarrow> True
          | Some dims \<Rightarrow> list_all (\<lambda>(k, m). sorted (map fst m)) dims)
      \<and> sorted (map fst (ShowSummary.sources s)))"

definition exampleMonth0 :: ShowSummary where
  "exampleMonth0 =
     \<lparr> ShowSummary.showUuid = exampleShow, period = ''2024-01'',
       ShowSummary.hourlyDownloads = [(''2024-01-02T03'', 1)],
       ShowSummary.episodes =
         [(''E1'', \<lparr> EpisodeSummary.hourlyDownloads = [(''2024-01-02T03'', 1)],
                    firstHour = ''2024-01-02T03'' \<rparr>)],
       ShowSummary.sources = [], ShowSummary.dimensionDownloads = Some [] \<rparr>"

subsection \<open>The audience ids that a run writes\<close>

text \<open>
  The audience ids that a run has written: those of the non-empty lines of the text
  that the run has left under a key, read the way the reducer reads a file; none when
  the run has left no text there.
\<close>

definition writtenAudienceIds :: "audience_run \<Rightarrow> string \<Rightarrow> string set" where
  "writtenAudienceIds run key =
     (case map_of (writtenBlobs run) key of
        None \<Rightarrow> {}
      | Some b \<Rightarrow>
          (case b of
             Text t \<Rightarrow> take 64 ` set (filter (\<lambda>line. line \<noteq> []) (computeLinestream t))
           | Json v \<Rightarrow> {}))"

text \<open>A line that starts with an audience id of 64 lowercase hex digits.\<close>

definition hexAudienceId :: "string \<Rightarrow> bool" where
  "hexAudienceId line = (64 \<le> length line \<and> list_all isLowerHex (take 64 line))"

text \<open>The part of a first character, by the thresholds of the spec.\<close>

definition firstCharPart4 :: "char \<Rightarrow> nat" where
  "firstCharPart4 c =
     (if c < CHR ''4'' then 1 else if c < CHR ''8'' then 2 else if c < CHR ''c'' then 3 else 4)"

definition firstCharPart8 :: "char \<Rightarrow> nat" where
  "firstCharPart8 c =
     (if c < CHR ''2'' then 1 else if c < CHR ''4'' then 2 else if c < CHR ''6'' then 3
      else if c < CHR ''8'' then 4 else if c < CHR ''a'' then 5 else if c < CHR ''c'' then 6
      else if c < CHR ''e'' then 7 else 8)"

text \<open>The part of a line, when the run has four or eight parts.\<close>

definition partOfLine :: "nat \<Rightarrow> string \<Rightarrow> nat" where
  "partOfLine numParts line = (if numParts = 4 then linePartNum4 line else linePartNum8 line)"

text \<open>
  The audience ids written by the run of a part (or by the unsharded run), under the
  audience key of that part. In the claim below every run has its own interleaving of
  the two writes, \<open>sched\<close> of its part.
\<close>

definition runAudienceIds ::
  "imported \<Rightarrow> string blobs \<Rightarrow> (string \<Rightarrow> nat \<Rightarrow> error option) \<Rightarrow> nat \<Rightarrow> string \<Rightarrow> string
     \<Rightarrow> (nat \<times> nat) option \<Rightarrow> string set" where
  "runAudienceIds env statsBlobs putOutcome n uuid mth partObj =
     writtenAudienceIds (recomputeAudienceForMonth env statsBlobs putOutcome n uuid mth partObj)
       (computeAudienceKey uuid mth (partString partObj))"

text \<open>The part of a first character, for four parts and for eight.\<close>

definition firstCharPart :: "nat \<Rightarrow> char \<Rightarrow> nat" where
  "firstCharPart numParts c = (if numParts = 4 then firstCharPart4 c else firstCharPart8 c)"

subsection \<open>Two stores for the claims about the blob\<close>

text \<open>A store all of whose writes succeed.\<close>

definition putsSucceed :: "string \<Rightarrow> nat \<Rightarrow> error option" where
  "putsSucceed key n = None"

text \<open>A store with one daily file, of the one line \<open>constructor\<close>.\<close>

definition prototypeBlobs :: "string blobs" where
  "prototypeBlobs = [(computeAudienceKey exampleShow ''2024-03-05'' None, ''constructor'')]"

subsection \<open>The calls of put, and stores that fail\<close>

text \<open>The number of calls of \<open>put\<close> that a run makes with a key.\<close>

definition putsTo :: "string \<Rightarrow> audience_run \<Rightarrow> nat" where
  "putsTo key run = length (filter (\<lambda>c. callKey c = key) (puts run))"

text \<open>A call of \<open>putAudience\<close>, once the loop has ended with the accumulator \<open>acc\<close>.\<close>

definition audienceAttempt ::
  "(string \<Rightarrow> nat \<Rightarrow> error option) \<Rightarrow> string \<Rightarrow> string \<Rightarrow> (nat \<times> nat) option \<Rightarrow> audience_acc
     \<Rightarrow> nat \<Rightarrow> error + unit" where
  "audienceAttempt putOutcome uuid mth partObj acc attempt =
     putAudience putOutcome (computeAudienceKey uuid mth (partString partObj))
       (81 * audience_acc.count acc) (audienceChunks (audience_acc.audienceTimestamps acc)) attempt"

text \<open>
  Three stores that fail: on the first two puts of the audience blob; on every put of
  the audience blob; and on every put of the audience blob and on the put of the
  summary. The first error is retryable, the second is not.
\<close>

definition transientTwice :: "string \<Rightarrow> nat \<Rightarrow> error option" where
  "transientTwice key n =
     (if key = computeAudienceKey exampleShow ''2024-03'' None \<and> n < 2
      then Some (StorageError ''transient'') else None)"

definition transientAlways :: "string \<Rightarrow> nat \<Rightarrow> error option" where
  "transientAlways key n =
     (if key = computeAudienceKey exampleShow ''2024-03'' None
      then Some (StorageError ''transient'') else None)"

definition bothFail :: "string \<Rightarrow> nat \<Rightarrow> error option" where
  "bothFail key n =
     (if key = computeAudienceKey exampleShow ''2024-03'' None
      then Some (StorageError ''transient'') else Some (StorageError ''down''))"

section \<open>Facts about the accumulator and the summary objects\<close>

lemma sum_list_update:
  "sum_list (map snd (AList.update k v m))
     = sum_list (map snd m) - (case map_of m k of None \<Rightarrow> 0 | Some n \<Rightarrow> n) + (v::int)"
  by (induction m) auto

lemma total_Nil [simp]: "total [] = 0"
  by (simp add: total_def)

lemma total_incrementBy: "total (incrementBy m k delta) = total m + delta"
  by (simp add: total_def incrementBy_def sum_list_update)

lemma total_increment: "total (increment m k) = total m + 1"
  by (simp add: increment_def total_incrementBy)

lemma total_incrementAll: "total (incrementAll dest src) = total dest + total src"
proof -
  have "total (foldl (\<lambda>d (k, v). incrementBy d k v) dest src) = total dest + sum_list (map snd src)"
  proof (induction src arbitrary: dest)
    case Nil
    then show ?case by simp
  next
    case (Cons p src)
    obtain k v where p: "p = (k, v)"
      by (cases p)
    show ?case
      by (simp add: p Cons.IH total_incrementBy)
  qed
  then show ?thesis
    by (simp add: incrementAll_def total_def)
qed

lemma asNumberRecord_numberRecord: "asNumberRecord (Some (numberRecord m)) = m"
  by (induction m) (auto simp: asNumberRecord_def numberRecord_def)

lemma asStringRecord_stringRecord: "asStringRecord (Some (stringRecord m)) = m"
  by (induction m) (auto simp: asStringRecord_def stringRecord_def)

lemma asEpisodeSummary_episodeObject: "asEpisodeSummary (episodeObject e) = e"
  by (simp add: asEpisodeSummary_def episodeObject_def getProp_def asNumberRecord_numberRecord)

lemma asEpisodes_episodesObject:
  "map (\<lambda>(k, e). (k, asEpisodeSummary e)) (entries (episodesObject m)) = m"
  by (induction m) (auto simp: episodesObject_def asEpisodeSummary_episodeObject)

lemma asDimensions_dimensionsObject:
  "map (\<lambda>(k, d). (k, asNumberRecord (Some d))) (entries (dimensionsObject m)) = m"
  by (induction m) (auto simp: dimensionsObject_def asNumberRecord_numberRecord)

lemma computeSorted_summaryObject:
  "computeSorted (summaryObject uuid per hourly eps dims srcs) =
     JObject [(''dimensionDownloads'', dimensionsObject dims),
              (''episodes'', episodesObject eps),
              (''hourlyDownloads'', numberRecord hourly),
              (''period'', JString per),
              (''showUuid'', JString uuid),
              (''sources'', stringRecord srcs)]"
  by (simp add: summaryObject_def computeSortedRecord_def)

lemma asShowSummary_computeSorted:
  "asShowSummary (computeSorted (summaryObject uuid per hourly eps dims srcs)) =
     \<lparr> ShowSummary.showUuid = uuid, period = per, ShowSummary.hourlyDownloads = hourly,
       ShowSummary.episodes = eps, ShowSummary.sources = srcs,
       ShowSummary.dimensionDownloads = Some dims \<rparr>"
  by (simp add: computeSorted_summaryObject asShowSummary_def getProp_def
      asNumberRecord_numberRecord asStringRecord_stringRecord asEpisodes_episodesObject
      asDimensions_dimensionsObject)

section \<open>The daily roll-up\<close>

lemma processRow_total:
  assumes "processRow env acc obj = Inr acc'"
  shows "total (daily_acc.hourlyDownloads acc')
     = total (daily_acc.hourlyDownloads acc) + (if botType obj = None then 1 else 0)"
  using assms
  by (auto simp: processRow_def Let_def total_increment split: option.splits if_splits sum.splits)

lemma processRows_total:
  assumes "processRows env acc stream = Inr acc'"
  shows "total (daily_acc.hourlyDownloads acc')
     = total (daily_acc.hourlyDownloads acc)
       + int (length (filter (\<lambda>obj. botType obj = None) stream))"
  using assms
proof (induction stream arbitrary: acc)
  case Nil
  then show ?case by simp
next
  case (Cons obj rest)
  from Cons.prems obtain acc1 where
    step: "processRow env acc obj = Inr acc1" and rest: "processRows env acc1 rest = Inr acc'"
    by (auto split: sum.splits)
  from Cons.IH [OF rest] processRow_total [OF step] show ?case
    by simp
qed

lemma processRow_bot:
  assumes "botType obj \<noteq> None" and "time obj \<noteq> None"
  shows "processRow env acc obj = Inr acc"
  using assms by (auto simp: processRow_def Let_def)

lemma processRows_append:
  "processRows env acc (xs @ ys) =
     (case processRows env acc xs of Inl e \<Rightarrow> Inl e | Inr acc' \<Rightarrow> processRows env acc' ys)"
  by (induction xs arbitrary: acc) (auto split: sum.splits)

lemma processRows_skip_bot:
  assumes "botType obj \<noteq> None" and "time obj \<noteq> None"
  shows "processRows env acc (before @ obj # after) = processRows env acc (before @ after)"
  using assms by (simp add: processRows_append processRow_bot split: sum.splits)

section \<open>Facts about the audience reducer\<close>

lemma foldAccept_Nil [simp]: "foldAccept acc [] = acc"
  by (simp add: foldAccept_def)

lemma foldAccept_Cons [simp]:
  "foldAccept acc ((date, line) # dated) = foldAccept (acceptLine date acc line) dated"
  by (simp add: foldAccept_def)

lemma foldAccept_append [simp]:
  "foldAccept acc (xs @ ys) = foldAccept (foldAccept acc xs) ys"
  by (simp add: foldAccept_def)

lemma processLine_Inr:
  assumes "processLine partObj date acc line = Inr acc'"
  shows "acc' = (if acceptsLine partObj line then acceptLine date acc line else acc)"
  using assms
  by (auto simp: processLine_def acceptsLine_def partMatches_def split: option.splits if_splits)

lemma processLines_Inr:
  assumes "processLines partObj date acc stream = Inr acc'"
  shows "acc' = foldAccept acc (map (Pair date) (filter (acceptsLine partObj) stream))"
  using assms
proof (induction stream arbitrary: acc)
  case Nil
  then show ?case by simp
next
  case (Cons line rest)
  from Cons.prems obtain acc1 where
    step: "processLine partObj date acc line = Inr acc1"
    and rest: "processLines partObj date acc1 rest = Inr acc'"
    by (auto split: sum.splits)
  from Cons.IH [OF rest] processLine_Inr [OF step] show ?case
    by simp
qed

lemma processAudienceKey_Inr:
  assumes "processAudienceKey env statsBlobs partObj acc key = Inr acc'"
  shows "acc' = foldAccept acc (acceptedOfKey env statsBlobs partObj key)"
  using assms
  by (auto simp: processAudienceKey_def acceptedOfKey_def split: option.splits sum.splits
      dest: processLines_Inr)

lemma processAudienceKeys_Inr:
  assumes "processAudienceKeys env statsBlobs partObj acc keys = Inr acc'"
  shows "acc' = foldAccept acc (concat (map (acceptedOfKey env statsBlobs partObj) keys))"
  using assms
proof (induction keys arbitrary: acc)
  case Nil
  then show ?case by simp
next
  case (Cons key keys)
  from Cons.prems obtain acc1 where
    step: "processAudienceKey env statsBlobs partObj acc key = Inr acc1"
    and rest: "processAudienceKeys env statsBlobs partObj acc1 keys = Inr acc'"
    by (auto split: sum.splits)
  from Cons.IH [OF rest] processAudienceKey_Inr [OF step] show ?case
    by simp
qed

lemma collectAudience_Inr:
  assumes "collectAudience env statsBlobs uuid mth partObj = Inr acc"
  shows "acc = foldAccept emptyAudience (acceptedLines env statsBlobs uuid mth partObj)"
  using assms processAudienceKeys_Inr
  by (simp add: collectAudience_def acceptedLines_def emptyAudience_def)

text \<open>Whether the loop fails does not depend on the part, for four and eight parts.\<close>

lemma processLine_supported:
  assumes "numParts = 4 \<or> numParts = 8"
  shows "\<exists>acc'. processLine (Some (partNum, numParts)) date acc line = Inr acc'"
  using assms by (auto simp: processLine_def)

lemma processLines_supported:
  assumes "numParts = 4 \<or> numParts = 8"
  shows "\<exists>acc'. processLines (Some (partNum, numParts)) date acc stream = Inr acc'"
proof (induction stream arbitrary: acc)
  case Nil
  then show ?case by simp
next
  case (Cons line rest)
  from processLine_supported [OF assms] obtain acc1 where
    "processLine (Some (partNum, numParts)) date acc line = Inr acc1"
    by blast
  with Cons.IH [of acc1] show ?case
    by simp
qed

lemma processAudienceKey_supported:
  assumes "numParts = 4 \<or> numParts = 8"
    and "processAudienceKey env statsBlobs None acc0 key = Inr whole"
  shows "\<exists>acc'. processAudienceKey env statsBlobs (Some (partNum, numParts)) acc key = Inr acc'"
  using assms(2) processLines_supported [OF assms(1)]
  by (auto simp: processAudienceKey_def split: option.splits sum.splits)

lemma processAudienceKeys_supported:
  assumes "numParts = 4 \<or> numParts = 8"
    and "processAudienceKeys env statsBlobs None acc0 keys = Inr whole"
  shows "\<exists>acc'. processAudienceKeys env statsBlobs (Some (partNum, numParts)) acc keys = Inr acc'"
  using assms(2)
proof (induction keys arbitrary: acc acc0)
  case Nil
  then show ?case by simp
next
  case (Cons key keys)
  from Cons.prems obtain w1 where
    step: "processAudienceKey env statsBlobs None acc0 key = Inr w1"
    and rest: "processAudienceKeys env statsBlobs None w1 keys = Inr whole"
    by (auto split: sum.splits)
  from processAudienceKey_supported [OF assms(1) step] obtain acc1 where
    s: "processAudienceKey env statsBlobs (Some (partNum, numParts)) acc key = Inr acc1"
    by blast
  from Cons.IH [OF rest, of acc1] s show ?case
    by simp
qed

text \<open>The audience ids of an accumulator.\<close>

lemma member_length:
  assumes "aid \<in> set objectPrototypeMembers"
  shows "length aid < 64"
  using assms by (auto simp: objectPrototypeMembers_def)

lemma truthyProperty_own:
  assumes "aid \<notin> set objectPrototypeMembers"
  shows "truthyProperty obj aid = truthy (map_of obj aid)"
  using assms by (simp add: truthyProperty_def truthy_def split: option.splits)

lemma acceptLine_ids:
  assumes "take 64 line \<notin> set objectPrototypeMembers"
  shows "fst ` set (audience_acc.audienceTimestamps (acceptLine date acc line))
     = insert (take 64 line) (fst ` set (audience_acc.audienceTimestamps acc))"
proof (cases "truthy (map_of (audience_acc.audienceTimestamps acc) (take 64 line))")
  case True
  then have "map_of (audience_acc.audienceTimestamps acc) (take 64 line) \<noteq> None"
    by (auto simp: truthy_def split: option.splits)
  then have "take 64 line \<in> fst ` set (audience_acc.audienceTimestamps acc)"
    using map_of_eq_None_iff [of "audience_acc.audienceTimestamps acc" "take 64 line"] by simp
  with True show ?thesis
    by (auto simp: acceptLine_def Let_def truthyProperty_own [OF assms])
next
  case False
  then show ?thesis
    by (simp add: acceptLine_def Let_def dom_update truthyProperty_own [OF assms])
qed

lemma foldAccept_ids:
  assumes "\<forall>(date, line) \<in> set dated. take 64 line \<notin> set objectPrototypeMembers"
  shows "fst ` set (audience_acc.audienceTimestamps (foldAccept acc dated))
     = fst ` set (audience_acc.audienceTimestamps acc) \<union> (\<lambda>(date, line). take 64 line) ` set dated"
  using assms
proof (induction dated arbitrary: acc)
  case Nil
  then show ?case by simp
next
  case (Cons p dated)
  obtain date line where p: "p = (date, line)"
    by (cases p)
  from Cons.prems p have here: "take 64 line \<notin> set objectPrototypeMembers"
    and rest: "\<forall>(date, line) \<in> set dated. take 64 line \<notin> set objectPrototypeMembers"
    by auto
  show ?case
    by (simp add: p Cons.IH [OF rest] acceptLine_ids [OF here])
qed

section \<open>Facts about the writes of the audience reducer\<close>

text \<open>The lines of a text.\<close>

lemma split_str_nonempty: "split_str sep s \<noteq> []"
  by (induction s) (auto split: list.splits)

lemma split_str_before:
  assumes "sep \<notin> set a"
  shows "split_str sep (a @ sep # rest) = a # split_str sep rest"
  using assms
proof (induction a)
  case Nil
  then show ?case by simp
next
  case (Cons c a)
  then show ?case
    by (auto simp: split_str_nonempty split: list.splits)
qed

lemma split_str_free:
  assumes "l \<in> set (split_str sep s)"
  shows "sep \<notin> set l"
  using assms
proof (induction s arbitrary: l)
  case Nil
  then show ?case by simp
next
  case (Cons c s)
  show ?case
  proof (cases "c = sep")
    case True
    with Cons show ?thesis by auto
  next
    case False
    obtain w ws where w: "split_str sep s = w # ws"
      using split_str_nonempty [of sep s] by (cases "split_str sep s") auto
    from Cons.prems False w have "l = c # w \<or> l \<in> set ws"
      by auto
    with Cons.IH [of w] Cons.IH [of l] w False show ?thesis
      by auto
  qed
qed

lemma computeLinestream_lines:
  assumes "\<forall>l \<in> set ls. CHR 0x0A \<notin> set l"
  shows "computeLinestream (concat (map (\<lambda>l. l @ [CHR 0x0A]) ls)) = ls @ [[]]"
  using assms
proof (induction ls)
  case Nil
  then show ?case by (simp add: computeLinestream_def)
next
  case (Cons l ls)
  then have "CHR 0x0A \<notin> set l" and IH: "computeLinestream (concat (map (\<lambda>l. l @ [CHR 0x0A]) ls)) = ls @ [[]]"
    by auto
  then show ?case
    using split_str_before [of "CHR 0x0A" l] by (simp add: computeLinestream_def)
qed

lemma computeLinestream_free:
  assumes "l \<in> set (computeLinestream stream)"
  shows "CHR 0x0A \<notin> set l"
  using assms split_str_free by (simp add: computeLinestream_def)

text \<open>The calls of a bounded retry: every call but the last fails with a retryable error.\<close>

lemma retryFrom_calls:
  assumes "retryFrom fn isRetryable retriesLeft attempt = (res, calls)"
  shows "attempt < calls \<and> calls \<le> Suc (attempt + retriesLeft) \<and> res = fn (calls - 1)
     \<and> (\<forall>i. attempt \<le> i \<and> i < calls - 1 \<longrightarrow> (\<exists>e. fn i = Inl e \<and> isRetryable e))"
  using assms
proof (induction retriesLeft arbitrary: attempt)
  case 0
  then show ?case by auto
next
  case (Suc n)
  show ?case
  proof (cases "\<exists>e. fn attempt = Inl e \<and> isRetryable e")
    case True
    then obtain e where e: "fn attempt = Inl e" "isRetryable e"
      by blast
    with Suc.prems have "retryFrom fn isRetryable n (Suc attempt) = (res, calls)"
      by simp
    from Suc.IH [OF this] have a: "Suc attempt < calls" and b: "calls \<le> Suc (Suc attempt + n)"
      and c: "res = fn (calls - 1)"
      and d: "\<forall>i. Suc attempt \<le> i \<and> i < calls - 1 \<longrightarrow> (\<exists>e. fn i = Inl e \<and> isRetryable e)"
      by blast+
    have "\<forall>i. attempt \<le> i \<and> i < calls - 1 \<longrightarrow> (\<exists>e. fn i = Inl e \<and> isRetryable e)"
    proof (intro allI impI)
      fix i assume i: "attempt \<le> i \<and> i < calls - 1"
      show "\<exists>e. fn i = Inl e \<and> isRetryable e"
      proof (cases "i = attempt")
        case True
        with e show ?thesis by blast
      next
        case False
        with i have "Suc attempt \<le> i \<and> i < calls - 1" by simp
        with d show ?thesis by blast
      qed
    qed
    with a b c show ?thesis
      by simp
  next
    case False
    with Suc.prems have "res = fn attempt" and "calls = Suc attempt"
      by (auto split: sum.splits if_splits)
    then show ?thesis
      by auto
  qed
qed

text \<open>The run, once the loop has succeeded, and when it has failed.\<close>

lemma recomputeAudienceForMonth_collected:
  assumes "collectAudience env statsBlobs uuid mth partObj = Inr acc"
  shows "recomputeAudienceForMonth env statsBlobs putOutcome n uuid mth partObj =
     \<lparr> outcome =
         (case promiseAll (n < snd (putAudienceWithRetries env putOutcome uuid mth partObj acc))
                 (fst (putAudienceWithRetries env putOutcome uuid mth partObj acc))
                 (putAudienceSummary putOutcome uuid mth (partString partObj)) of
            Inl e \<Rightarrow> Inl e
          | Inr u \<Rightarrow>
              Inr \<lparr> audience = audience_acc.count acc,
                    contentLength = 81 * audience_acc.count acc,
                    part = partString partObj \<rparr>),
       puts = take n (audienceCalls env putOutcome uuid mth partObj acc)
              @ [summaryCall putOutcome uuid mth partObj acc]
              @ drop n (audienceCalls env putOutcome uuid mth partObj acc) \<rparr>"
  by (simp add: recomputeAudienceForMonth_def assms Let_def case_prod_unfold
      putAudienceWithRetries_def audienceCalls_def summaryCall_def)

lemma recomputeAudienceForMonth_failed:
  assumes "collectAudience env statsBlobs uuid mth partObj = Inl e"
  shows "recomputeAudienceForMonth env statsBlobs putOutcome n uuid mth partObj =
     \<lparr> outcome = Inl e, puts = [] \<rparr>"
  by (simp add: recomputeAudienceForMonth_def assms)

lemma audience_key_not_summary_key:
  "computeAudienceKey uuid mth prt \<noteq> computeAudienceSummaryKey uuid' mth' prt'"
  by (simp add: computeAudienceKey_def computeAudienceSummaryKey_def)

text \<open>Of the calls for the audience blob, only the last can succeed.\<close>

lemma audienceCalls_succeeded:
  "filter (\<lambda>c. callError c = None) (audienceCalls env putOutcome uuid mth partObj acc)
     = (if isl (fst (putAudienceWithRetries env putOutcome uuid mth partObj acc)) then []
        else [\<lparr> callKey = computeAudienceKey uuid mth (partString partObj),
                callBody = Text (audienceLines (audience_acc.audienceTimestamps acc)),
                callError = None \<rparr>])"
proof -
  define fn where "fn = putAudience putOutcome (computeAudienceKey uuid mth (partString partObj))
      (81 * audience_acc.count acc) (audienceChunks (audience_acc.audienceTimestamps acc))"
  define call where "call = (\<lambda>n. \<lparr> callKey = computeAudienceKey uuid mth (partString partObj),
      callBody = Text (audienceLines (audience_acc.audienceTimestamps acc)),
      callError = (case fn n of Inl e \<Rightarrow> Some e | Inr u \<Rightarrow> None) \<rparr>)"
  obtain res m where w: "putAudienceWithRetries env putOutcome uuid mth partObj acc = (res, m)"
    by (cases "putAudienceWithRetries env putOutcome uuid mth partObj acc")
  then have "retryFrom fn (isRetryableErrorFromR2 env) 2 0 = (res, m)"
    by (simp add: putAudienceWithRetries_def executeWithRetries_def fn_def)
  from retryFrom_calls [OF this] have pos: "0 < m" and res: "res = fn (m - 1)"
    and before: "\<forall>i. i < m - 1 \<longrightarrow> (\<exists>e. fn i = Inl e)"
    by auto
  from pos have range: "[0 ..< m] = [0 ..< m - 1] @ [m - 1]"
    by (cases m) simp_all
  have calls: "audienceCalls env putOutcome uuid mth partObj acc = map call [0 ..< m]"
    by (simp add: audienceCalls_def w call_def fn_def)
  have early: "filter (\<lambda>c. callError c = None) (map call [0 ..< m - 1]) = []"
  proof -
    have "\<forall>i \<in> set [0 ..< m - 1]. callError (call i) \<noteq> None"
      using before by (auto simp: call_def)
    then show ?thesis
      by (simp add: filter_empty_conv)
  qed
  have last: "filter (\<lambda>c. callError c = None) [call (m - 1)]
      = (if isl res then []
         else [\<lparr> callKey = computeAudienceKey uuid mth (partString partObj),
                 callBody = Text (audienceLines (audience_acc.audienceTimestamps acc)),
                 callError = None \<rparr>])"
    by (cases "fn (m - 1)") (simp_all add: call_def res)
  have "filter (\<lambda>c. callError c = None) (map call [0 ..< m])
      = filter (\<lambda>c. callError c = None) (map call [0 ..< m - 1])
        @ filter (\<lambda>c. callError c = None) [call (m - 1)]"
    by (subst range) simp
  with early last calls w show ?thesis
    by simp
qed

lemma writtenBlobs_collected:
  assumes "collectAudience env statsBlobs uuid mth partObj = Inr acc"
  shows "writtenBlobs (recomputeAudienceForMonth env statsBlobs putOutcome n uuid mth partObj)
     = map (\<lambda>c. (callKey c, callBody c))
         (filter (\<lambda>c. callError c = None)
            (take n (audienceCalls env putOutcome uuid mth partObj acc)))
       @ (if callError (summaryCall putOutcome uuid mth partObj acc) = None
          then [(callKey (summaryCall putOutcome uuid mth partObj acc),
                 callBody (summaryCall putOutcome uuid mth partObj acc))]
          else [])
       @ map (\<lambda>c. (callKey c, callBody c))
           (filter (\<lambda>c. callError c = None)
              (drop n (audienceCalls env putOutcome uuid mth partObj acc)))"
  by (simp add: recomputeAudienceForMonth_collected [OF assms] writtenBlobs_def)

lemma filter_take_drop:
  "filter P (take n xs) @ filter P (drop n xs) = filter P xs"
  by (metis append_take_drop_id filter_append)

lemma map_of_skip_middle:
  assumes "fst s \<noteq> k"
  shows "map_of (xs @ (if b then [s] else []) @ ys) k = map_of (xs @ ys) k"
  using assms by (induction xs) auto

lemma map_of_skip_front:
  assumes "\<forall>x \<in> set xs. fst x \<noteq> k"
  shows "map_of (xs @ ys) k = map_of ys k"
  using assms by (induction xs) auto

lemma map_of_skip_back:
  assumes "\<forall>x \<in> set ys. fst x \<noteq> k"
  shows "map_of (xs @ ys) k = map_of xs k"
  using assms by (induction xs) (auto simp: map_of_eq_None_iff image_iff)

text \<open>The blobs that a run leaves under its two keys.\<close>

lemma written_audience:
  assumes "collectAudience env statsBlobs uuid mth partObj = Inr acc"
  shows "map_of (writtenBlobs (recomputeAudienceForMonth env statsBlobs putOutcome n uuid mth partObj))
       (computeAudienceKey uuid mth (partString partObj))
     = (if isl (fst (putAudienceWithRetries env putOutcome uuid mth partObj acc)) then None
        else Some (Text (audienceLines (audience_acc.audienceTimestamps acc))))"
proof -
  let ?calls = "audienceCalls env putOutcome uuid mth partObj acc"
  let ?s = "summaryCall putOutcome uuid mth partObj acc"
  let ?f = "\<lambda>c. (callKey c, callBody c)"
  let ?P = "\<lambda>c. callError c = None"
  let ?k = "computeAudienceKey uuid mth (partString partObj)"
  have key: "fst (?f ?s) \<noteq> ?k"
    using audience_key_not_summary_key [of uuid mth "partString partObj" uuid mth "partString partObj"]
    by (simp add: summaryCall_def)
  have all: "map ?f (filter ?P (take n ?calls)) @ map ?f (filter ?P (drop n ?calls))
      = map ?f (filter ?P ?calls)"
    using filter_take_drop [of ?P n ?calls] by (metis map_append)
  have "map_of (writtenBlobs (recomputeAudienceForMonth env statsBlobs putOutcome n uuid mth partObj)) ?k
      = map_of (map ?f (filter ?P (take n ?calls))
          @ (if callError ?s = None then [?f ?s] else [])
          @ map ?f (filter ?P (drop n ?calls))) ?k"
    by (simp only: writtenBlobs_collected [OF assms])
  also have "\<dots> = map_of (map ?f (filter ?P (take n ?calls)) @ map ?f (filter ?P (drop n ?calls))) ?k"
    using key by (rule map_of_skip_middle)
  also have "\<dots> = map_of (map ?f (filter ?P ?calls)) ?k"
    by (simp only: all)
  also have "\<dots> = (if isl (fst (putAudienceWithRetries env putOutcome uuid mth partObj acc)) then None
        else Some (Text (audienceLines (audience_acc.audienceTimestamps acc))))"
    by (simp add: audienceCalls_succeeded)
  finally show ?thesis .
qed

lemma written_summary:
  assumes "collectAudience env statsBlobs uuid mth partObj = Inr acc"
  shows "map_of (writtenBlobs (recomputeAudienceForMonth env statsBlobs putOutcome n uuid mth partObj))
       (computeAudienceSummaryKey uuid mth (partString partObj))
     = (if putOutcome (computeAudienceSummaryKey uuid mth (partString partObj)) 0 = None
        then Some (Json (audienceSummaryObject uuid mth (partString partObj)
                           (dailyFoundAudience acc)))
        else None)"
proof -
  let ?calls = "audienceCalls env putOutcome uuid mth partObj acc"
  let ?s = "summaryCall putOutcome uuid mth partObj acc"
  let ?f = "\<lambda>c. (callKey c, callBody c)"
  let ?P = "\<lambda>c. callError c = None"
  let ?k = "computeAudienceSummaryKey uuid mth (partString partObj)"
  have keys: "\<forall>c \<in> set ?calls. callKey c \<noteq> ?k"
    using audience_key_not_summary_key [of uuid mth "partString partObj" uuid mth "partString partObj"]
    by (auto simp: audienceCalls_def)
  have before: "\<forall>x \<in> set (map ?f (filter ?P (take n ?calls))). fst x \<noteq> ?k"
    using keys by (auto dest: in_set_takeD)
  have behind: "\<forall>x \<in> set (map ?f (filter ?P (drop n ?calls))). fst x \<noteq> ?k"
    using keys by (auto dest: in_set_dropD)
  have "map_of (writtenBlobs (recomputeAudienceForMonth env statsBlobs putOutcome n uuid mth partObj)) ?k
      = map_of (map ?f (filter ?P (take n ?calls))
          @ (if callError ?s = None then [?f ?s] else [])
          @ map ?f (filter ?P (drop n ?calls))) ?k"
    by (simp only: writtenBlobs_collected [OF assms])
  also have "\<dots> = map_of ((if callError ?s = None then [?f ?s] else [])
          @ map ?f (filter ?P (drop n ?calls))) ?k"
    using before by (rule map_of_skip_front)
  also have "\<dots> = map_of (if callError ?s = None then [?f ?s] else []) ?k"
    using behind by (rule map_of_skip_back)
  also have "\<dots> = (if putOutcome ?k 0 = None
        then Some (Json (audienceSummaryObject uuid mth (partString partObj)
                           (dailyFoundAudience acc)))
        else None)"
    by (simp add: summaryCall_def)
  finally show ?thesis .
qed

text \<open>When a run returns.\<close>

lemma outcome_collected:
  assumes "collectAudience env statsBlobs uuid mth partObj = Inr acc"
  shows "outcome (recomputeAudienceForMonth env statsBlobs putOutcome n uuid mth partObj)
     = (case promiseAll (n < snd (putAudienceWithRetries env putOutcome uuid mth partObj acc))
               (fst (putAudienceWithRetries env putOutcome uuid mth partObj acc))
               (putAudienceSummary putOutcome uuid mth (partString partObj)) of
          Inl e \<Rightarrow> Inl e
        | Inr u \<Rightarrow>
            Inr \<lparr> audience = audience_acc.count acc,
                  contentLength = 81 * audience_acc.count acc,
                  part = partString partObj \<rparr>)"
  by (simp add: recomputeAudienceForMonth_collected [OF assms])

lemma outcome_Inr:
  assumes "outcome (recomputeAudienceForMonth env statsBlobs putOutcome n uuid mth partObj) = Inr r"
  shows "\<exists>acc. collectAudience env statsBlobs uuid mth partObj = Inr acc
     \<and> \<not> isl (fst (putAudienceWithRetries env putOutcome uuid mth partObj acc))
     \<and> putOutcome (computeAudienceSummaryKey uuid mth (partString partObj)) 0 = None
     \<and> r = \<lparr> audience = audience_acc.count acc,
              contentLength = 81 * audience_acc.count acc,
              part = partString partObj \<rparr>"
proof (cases "collectAudience env statsBlobs uuid mth partObj")
  case (Inl e)
  with assms show ?thesis
    by (simp add: recomputeAudienceForMonth_failed)
next
  case (Inr acc)
  from assms show ?thesis
    unfolding outcome_collected [OF Inr]
    by (auto simp: Inr promiseAll_def putAudienceSummary_def split: sum.splits option.splits)
qed

lemma outcome_returns:
  assumes "collectAudience env statsBlobs uuid mth partObj = Inr acc"
    and "\<not> isl (fst (putAudienceWithRetries env putOutcome uuid mth partObj acc))"
    and "putOutcome (computeAudienceSummaryKey uuid mth (partString partObj)) 0 = None"
  shows "outcome (recomputeAudienceForMonth env statsBlobs putOutcome n uuid mth partObj)
     = Inr \<lparr> audience = audience_acc.count acc,
             contentLength = 81 * audience_acc.count acc,
             part = partString partObj \<rparr>"
  using assms(2,3) unfolding outcome_collected [OF assms(1)]
  by (auto simp: promiseAll_def putAudienceSummary_def split: sum.splits)

text \<open>The bytes of the chunks are the bytes of the text.\<close>

lemma encode_append: "encode (a @ b) = encode a @ encode b"
  by (simp add: encode_def)

lemma audienceChunks_encode: "concat (audienceChunks timestamps) = encode (audienceLines timestamps)"
  by (induction timestamps) (auto simp: audienceChunks_def audienceLines_def encode_append encode_def)

lemma put_succeeded_length:
  assumes "\<not> isl (fst (putAudienceWithRetries env putOutcome uuid mth partObj acc))"
  shows "length (encode (audienceLines (audience_acc.audienceTimestamps acc)))
     = 81 * audience_acc.count acc"
proof -
  obtain res m where w: "putAudienceWithRetries env putOutcome uuid mth partObj acc = (res, m)"
    by (cases "putAudienceWithRetries env putOutcome uuid mth partObj acc")
  then have "retryFrom
      (putAudience putOutcome (computeAudienceKey uuid mth (partString partObj))
         (81 * audience_acc.count acc) (audienceChunks (audience_acc.audienceTimestamps acc)))
      (isRetryableErrorFromR2 env) 2 0 = (res, m)"
    by (simp add: putAudienceWithRetries_def executeWithRetries_def)
  from retryFrom_calls [OF this] have
    "res = putAudience putOutcome (computeAudienceKey uuid mth (partString partObj))
         (81 * audience_acc.count acc) (audienceChunks (audience_acc.audienceTimestamps acc)) (m - 1)"
    by blast
  with assms w show ?thesis
    by (auto simp: putAudience_def audienceChunks_encode split: if_splits)
qed

section \<open>Runs of the reducer on the example store\<close>

lemma exampleAudience_stream: "computeLinestream exampleAudienceText = exampleAudienceLines"
proof -
  have "\<forall>l \<in> set (take 4 exampleAudienceLines). CHR 0x0A \<notin> set l"
    by (simp add: exampleAudienceLines_def)
  from computeLinestream_lines [OF this] show ?thesis
    by (simp add: exampleAudienceText_def exampleAudienceLines_def)
qed

lemma exampleKey_unpack:
  "unpackAudienceKey exampleImported (computeAudienceKey exampleShow ''2024-03-05'' None)
     = Inr (exampleShow, ''2024-03-05'', None)"
  by (simp add: unpackAudienceKey_def matchAudienceKey_def computeAudienceKey_def exampleShow_def
      stripPrefix_def stripSuffix_def exampleImported_def isLowerHex_def isDigit_def suffix_def)

lemma exampleAudience_listing:
  "blobs_list exampleAudienceBlobs (computeAudienceKeyPrefix exampleShow ''2024-03'')
     = [computeAudienceKey exampleShow ''2024-03-05'' None]"
  by (simp add: blobs_list_def exampleAudienceBlobs_def computeAudienceKeyPrefix_def
      computeAudienceKey_def exampleShow_def)

lemma exampleAudience_get:
  "blobs_get exampleAudienceBlobs (computeAudienceKey exampleShow ''2024-03-05'' None)
     = Some exampleAudienceText"
  by (simp add: blobs_get_def exampleAudienceBlobs_def)

lemma exampleDate_valid: "check ''date'' (Some ''2024-03-05'') (isValidDate exampleImported)
     = Inr ''2024-03-05''"
  by (simp add: check_def exampleImported_def isDigit_def)

lemma exampleAudience_collect:
  "collectAudience exampleImported exampleAudienceBlobs exampleShow ''2024-03'' None =
     Inr \<lparr> audience_acc.audienceTimestamps =
             [(''0a00000000000000000000000000000000000000000000000000000000000001'',
               ''240305101500000''),
              (''4b00000000000000000000000000000000000000000000000000000000000002'',
               ''240305101600000''),
              (''cf00000000000000000000000000000000000000000000000000000000000003'',
               ''240305101700000'')],
           dailyFoundAudience = [(''2024-03-05'', 4)],
           audience_acc.count = 3 \<rparr>"
  by (simp add: collectAudience_def exampleAudience_listing processAudienceKey_def
      exampleAudience_get exampleKey_unpack exampleDate_valid exampleAudience_stream
      exampleAudienceLines_def processLine_def acceptLine_def Let_def truthy_def
      truthyProperty_def objectPrototypeMembers_def increment_def incrementBy_def)

lemma exampleAudience_accepted:
  "acceptedLines exampleImported exampleAudienceBlobs exampleShow ''2024-03'' None
     = map (Pair ''2024-03-05'') (take 4 exampleAudienceLines)"
  by (simp add: acceptedLines_def exampleAudience_listing acceptedOfKey_def exampleAudience_get
      exampleKey_unpack exampleAudience_stream exampleAudienceLines_def acceptsLine_def
      partMatches_def)

lemma exampleAudience_wellformed:
  "list_all (\<lambda>(date, line). audienceLine line)
     (acceptedLines exampleImported exampleAudienceBlobs exampleShow ''2024-03'' None)"
  by (simp add: exampleAudience_accepted exampleAudienceLines_def audienceLine_def
      isLowerHex_def isDigit_def)

lemma exampleAudience_firstSeen:
  "firstSeen {} (acceptedLines exampleImported exampleAudienceBlobs exampleShow ''2024-03'' None)
     = take 3 exampleAudienceLines"
  by (simp add: exampleAudience_accepted exampleAudienceLines_def)

section \<open>Facts about the text of the audience blob\<close>

lemma update_absent: "k \<notin> fst ` set al \<Longrightarrow> AList.update k v al = al @ [(k, v)]"
  by (induction al) auto

lemma audienceLine_parts:
  assumes "audienceLine line"
  shows "take 64 line @ [CHR 0x09] @ take 15 (drop 65 line) = line"
    and "take 15 (drop 65 line) \<noteq> []"
proof -
  from assms have len: "length line = 80" and tab: "line ! 64 = CHR 0x09"
    by (simp_all add: audienceLine_def)
  have "line = take 64 line @ line ! 64 # drop (Suc 64) line"
    using len by (intro id_take_nth_drop) simp
  moreover have "take 15 (drop 65 line) = drop 65 line"
    using len by simp
  ultimately show "take 64 line @ [CHR 0x09] @ take 15 (drop 65 line) = line"
    using tab by simp
  show "take 15 (drop 65 line) \<noteq> []"
    using len by (simp add: \<open>take 15 (drop 65 line) = drop 65 line\<close>)
qed

lemma foldAccept_wellformed:
  assumes "list_all (\<lambda>(date, line). audienceLine line) dated"
    and "list_all (\<lambda>(aid, timestamp). timestamp \<noteq> []) (audience_acc.audienceTimestamps acc)"
  shows "audience_acc.audienceTimestamps (foldAccept acc dated)
           = audience_acc.audienceTimestamps acc
             @ map (\<lambda>line. (take 64 line, take 15 (drop 65 line)))
                 (firstSeen (fst ` set (audience_acc.audienceTimestamps acc)) dated)
     \<and> audience_acc.count (foldAccept acc dated)
         = audience_acc.count acc
           + length (firstSeen (fst ` set (audience_acc.audienceTimestamps acc)) dated)"
  using assms
proof (induction dated arbitrary: acc)
  case Nil
  then show ?case by simp
next
  case (Cons p dated)
  obtain date line where p: "p = (date, line)"
    by (cases p)
  from Cons.prems(1) have line: "audienceLine line"
    and rest: "list_all (\<lambda>(date, line). audienceLine line) dated"
    by (simp_all add: p)
  let ?ts = "audience_acc.audienceTimestamps acc"
  have "length (take 64 line) = 64"
    using line by (simp add: audienceLine_def)
  with member_length [of "take 64 line"] have own: "take 64 line \<notin> set objectPrototypeMembers"
    by auto
  have "truthy (map_of ?ts (take 64 line)) \<longleftrightarrow> take 64 line \<in> fst ` set ?ts"
  proof (cases "map_of ?ts (take 64 line)")
    case None
    then show ?thesis
      using map_of_eq_None_iff [of ?ts "take 64 line"] by (simp add: truthy_def)
  next
    case (Some t)
    then have mem: "(take 64 line, t) \<in> set ?ts"
      by (rule map_of_SomeD)
    with Cons.prems(2) have "t \<noteq> []"
      by (auto simp: list_all_iff)
    moreover from mem have "take 64 line \<in> fst ` set ?ts"
      by force
    ultimately show ?thesis
      by (simp add: Some truthy_def)
  qed
  then have known: "truthyProperty ?ts (take 64 line) \<longleftrightarrow> take 64 line \<in> fst ` set ?ts"
    by (simp add: truthyProperty_own [OF own])
  show ?case
  proof (cases "take 64 line \<in> fst ` set ?ts")
    case True
    then have acc1: "audience_acc.audienceTimestamps (acceptLine date acc line) = ?ts"
      and cnt1: "audience_acc.count (acceptLine date acc line) = audience_acc.count acc"
      using known by (simp_all add: acceptLine_def Let_def)
    from Cons.IH [OF rest, of "acceptLine date acc line"] Cons.prems(2) True show ?thesis
      by (simp add: p acc1 cnt1)
  next
    case False
    then have acc1: "audience_acc.audienceTimestamps (acceptLine date acc line)
        = ?ts @ [(take 64 line, take 15 (drop 65 line))]"
      and cnt1: "audience_acc.count (acceptLine date acc line) = Suc (audience_acc.count acc)"
      using known by (simp_all add: acceptLine_def Let_def update_absent)
    have ne: "list_all (\<lambda>(aid, timestamp). timestamp \<noteq> [])
        (audience_acc.audienceTimestamps (acceptLine date acc line))"
      using Cons.prems(2) audienceLine_parts(2) [OF line] by (simp add: acc1)
    from Cons.IH [OF rest ne] False show ?thesis
      by (simp add: p acc1 cnt1 Un_commute)
  qed
qed

lemma firstSeen_subset: "set (firstSeen seen dated) \<subseteq> snd ` set dated"
  by (induction seen dated rule: firstSeen.induct) (auto split: if_splits)

lemma audienceLines_wellformed:
  assumes "list_all audienceLine ls"
  shows "audienceLines (map (\<lambda>line. (take 64 line, take 15 (drop 65 line))) ls)
     = concat (map (\<lambda>line. line @ [CHR 0x0A]) ls)"
  using assms
proof (induction ls)
  case Nil
  then show ?case by (simp add: audienceLines_def)
next
  case (Cons line ls)
  then have "audienceLine line" and ih: "audienceLines (map (\<lambda>line. (take 64 line, take 15 (drop 65 line))) ls)
     = concat (map (\<lambda>line. line @ [CHR 0x0A]) ls)"
    by simp_all
  from audienceLine_parts(1) [OF this(1)]
  have "take 64 line @ CHR 0x09 # take 15 (drop 65 line) = line"
    by simp
  then have "take 64 line @ CHR 0x09 # take 15 (drop 65 line) @ [CHR 0x0A] = line @ [CHR 0x0A]"
    by (metis append_Cons append_assoc)
  with ih show ?case
    by (simp add: audienceLines_def)
qed

lemma firstSeen_card:
  "length (firstSeen seen dated) = card ((\<lambda>(date, line). take 64 line) ` set dated - seen)"
proof (induction seen dated rule: firstSeen.induct)
  case (1 seen)
  then show ?case by simp
next
  case (2 seen date line rest)
  let ?ids = "(\<lambda>(date, line). take 64 line) ` set rest"
  show ?case
  proof (cases "take 64 line \<in> seen")
    case True
    then have "insert (take 64 line) ?ids - seen = ?ids - seen"
      by blast
    with True 2 show ?thesis by simp
  next
    case False
    then have "insert (take 64 line) ?ids - seen
        = insert (take 64 line) (?ids - insert (take 64 line) seen)"
      by blast
    moreover have "take 64 line \<notin> ?ids - insert (take 64 line) seen"
      by blast
    moreover have "finite (?ids - insert (take 64 line) seen)"
      by simp
    ultimately have "card (insert (take 64 line) ?ids - seen)
        = Suc (card (?ids - insert (take 64 line) seen))"
      by simp
    with False 2 show ?thesis by simp
  qed
qed

lemma encode_ascii:
  assumes "ascii s"
  shows "encode s = s"
  using assms by (induction s) (auto simp: ascii_def encode_def encodeUnit_def)

lemma encode_length: "length s \<le> length (encode s)"
  by (induction s) (auto simp: encode_def encodeUnit_def Let_def)

text \<open>The lines of the listed files have no line feed.\<close>

lemma acceptedLines_free:
  assumes "(date, line) \<in> set (acceptedLines env statsBlobs uuid mth partObj)"
  shows "CHR 0x0A \<notin> set line"
  using assms
  by (auto simp: acceptedLines_def acceptedOfKey_def split: option.splits sum.splits
      dest: computeLinestream_free)

text \<open>An entry of the accumulator comes from an accepted line.\<close>

lemma set_update_entries: "set (AList.update k v al) \<subseteq> insert (k, v) (set al)"
  by (induction al) auto

lemma acceptLine_entries:
  "set (audience_acc.audienceTimestamps (acceptLine date acc line))
     \<subseteq> insert (take 64 line, take 15 (drop 65 line)) (set (audience_acc.audienceTimestamps acc))"
  using set_update_entries [of "take 64 line" "take 15 (drop 65 line)"
      "audience_acc.audienceTimestamps acc"]
  by (auto simp: acceptLine_def Let_def)

lemma foldAccept_entries:
  "set (audience_acc.audienceTimestamps (foldAccept acc dated))
     \<subseteq> set (audience_acc.audienceTimestamps acc)
       \<union> (\<lambda>(date, line). (take 64 line, take 15 (drop 65 line))) ` set dated"
proof (induction dated arbitrary: acc)
  case Nil
  then show ?case by simp
next
  case (Cons p dated)
  obtain date line where p: "p = (date, line)"
    by (cases p)
  from Cons.IH [of "acceptLine date acc line"] acceptLine_entries [of date acc line]
  show ?case
    by (auto simp: p)
qed

text \<open>The accumulator of a loop all of whose accepted lines are audience lines.\<close>

lemma collect_wellformed:
  assumes collect: "collectAudience env statsBlobs uuid mth partObj = Inr acc"
    and lines: "list_all (\<lambda>(date, line). audienceLine line)
      (acceptedLines env statsBlobs uuid mth partObj)"
  shows "audience_acc.audienceTimestamps acc
       = map (\<lambda>line. (take 64 line, take 15 (drop 65 line)))
           (firstSeen {} (acceptedLines env statsBlobs uuid mth partObj))"
    and "audience_acc.count acc = length (firstSeen {} (acceptedLines env statsBlobs uuid mth partObj))"
    and "audienceLines (audience_acc.audienceTimestamps acc)
       = concat (map (\<lambda>line. line @ [CHR 0x0A])
           (firstSeen {} (acceptedLines env statsBlobs uuid mth partObj)))"
    and "length (audienceLines (audience_acc.audienceTimestamps acc)) = 81 * audience_acc.count acc"
proof -
  let ?accepted = "acceptedLines env statsBlobs uuid mth partObj"
  have a: "acc = foldAccept emptyAudience ?accepted"
    by (rule collectAudience_Inr [OF collect])
  from foldAccept_wellformed [OF lines, of emptyAudience]
  show ts: "audience_acc.audienceTimestamps acc
      = map (\<lambda>line. (take 64 line, take 15 (drop 65 line))) (firstSeen {} ?accepted)"
    and cnt: "audience_acc.count acc = length (firstSeen {} ?accepted)"
    by (simp_all add: a emptyAudience_def)
  have "list_all audienceLine (firstSeen {} ?accepted)"
    using lines firstSeen_subset [of "{}" ?accepted] by (fastforce simp: list_all_iff)
  then have blob': "audienceLines (audience_acc.audienceTimestamps acc)
      = concat (map (\<lambda>line. line @ [CHR 0x0A]) (firstSeen {} ?accepted))"
    and each: "list_all (\<lambda>line. length line = 80) (firstSeen {} ?accepted)"
    by (simp_all add: ts audienceLines_wellformed audienceLine_def list_all_iff)
  from blob' show blob: "audienceLines (audience_acc.audienceTimestamps acc)
      = concat (map (\<lambda>line. line @ [CHR 0x0A]) (firstSeen {} ?accepted))" .
  have "length (concat (map (\<lambda>line. line @ [CHR 0x0A]) ls)) = 81 * length ls"
    if "list_all (\<lambda>line. length line = 80) ls" for ls :: "string list"
    using that by (induction ls) simp_all
  from this [OF each] show "length (audienceLines (audience_acc.audienceTimestamps acc))
      = 81 * audience_acc.count acc"
    by (simp add: blob cnt)
qed

text \<open>On audience lines of code units below 128, a run whose writes succeed returns.\<close>

lemma wellformed_run_returns:
  assumes collect: "collectAudience env statsBlobs uuid mth partObj = Inr acc"
    and lines: "list_all (\<lambda>(date, line). audienceLine line)
      (acceptedLines env statsBlobs uuid mth partObj)"
    and plain: "list_all (\<lambda>(date, line). ascii line)
      (acceptedLines env statsBlobs uuid mth partObj)"
    and put: "putOutcome (computeAudienceKey uuid mth (partString partObj)) 0 = None"
    and summary: "putOutcome (computeAudienceSummaryKey uuid mth (partString partObj)) 0 = None"
  shows "outcome (recomputeAudienceForMonth env statsBlobs putOutcome n uuid mth partObj)
     = Inr \<lparr> audience = audience_acc.count acc,
             contentLength = 81 * audience_acc.count acc,
             part = partString partObj \<rparr>"
proof -
  let ?accepted = "acceptedLines env statsBlobs uuid mth partObj"
  let ?ts = "audience_acc.audienceTimestamps acc"
  have "list_all ascii (firstSeen {} ?accepted)"
    using plain firstSeen_subset [of "{}" ?accepted] by (fastforce simp: list_all_iff)
  then have "ascii (concat (map (\<lambda>line. line @ [CHR 0x0A]) (firstSeen {} ?accepted)))"
    by (induction "firstSeen {} ?accepted") (auto simp: ascii_def list_all_iff)
  then have "ascii (audienceLines ?ts)"
    by (simp add: collect_wellformed(3) [OF collect lines])
  then have "length (concat (audienceChunks ?ts)) = 81 * audience_acc.count acc"
    by (simp add: audienceChunks_encode encode_ascii collect_wellformed(4) [OF collect lines])
  then have "putAudienceWithRetries env putOutcome uuid mth partObj acc = (Inr (), 1)"
    by (simp add: putAudienceWithRetries_def executeWithRetries_def numeral_2_eq_2
        putAudience_def put)
  then have "\<not> isl (fst (putAudienceWithRetries env putOutcome uuid mth partObj acc))"
    by simp
  from outcome_returns [OF collect this summary] show ?thesis .
qed

section \<open>The listing prefix of the audience reducer\<close>

lemma prefix_before_separator:
  "c \<notin> set p \<Longrightarrow> prefix p (q @ c # rest) \<Longrightarrow> prefix p q"
proof (induction p arbitrary: q)
  case Nil
  then show ?case by simp
next
  case (Cons x p)
  show ?case
  proof (cases q)
    case Nil
    with Cons.prems show ?thesis by simp
  next
    case (Cons y q')
    with Cons.prems have "x = y" and "prefix p (q' @ c # rest)" and "c \<notin> set p"
      by simp_all
    with Cons.IH [of q'] Cons show ?thesis by simp
  qed
qed

lemma prefix_dash_period:
  assumes nodot: "CHR ''.'' \<notin> set mth"
    and pre: "prefix (mth @ ''-'') (per @ CHR ''.'' # rest)"
  shows "prefix (mth @ ''-'') per"
proof -
  from nodot have "CHR ''.'' \<notin> set (mth @ ''-'')"
    by simp
  then show ?thesis
    using pre by (rule prefix_before_separator)
qed

text \<open>A key that \<open>unpackAudienceKey\<close> accepts is the audience key of what it returns.\<close>

lemma splitAtFirst_Some:
  assumes "splitAtFirst c s = Some (a, b)"
  shows "s = a @ c # b"
  using assms
proof (induction s arbitrary: a)
  case Nil
  then show ?case by simp
next
  case (Cons x s)
  show ?case
  proof (cases "x = c")
    case True
    with Cons.prems show ?thesis by simp
  next
    case False
    with Cons.prems obtain a' where "splitAtFirst c s = Some (a', b)" and "a = x # a'"
      by (auto split: option.splits)
    with Cons.IH [of a'] show ?thesis by simp
  qed
qed

lemma stripPrefix_Some: "stripPrefix p s = Some r \<Longrightarrow> s = p @ r"
  by (auto simp: stripPrefix_def prefix_def split: if_splits)

lemma stripSuffix_Some: "stripSuffix x s = Some m \<Longrightarrow> s = m @ x"
  by (auto simp: stripSuffix_def suffix_def split: if_splits)

lemma matchAudienceKey_Some:
  assumes "matchAudienceKey key = Some (g1, g2, g3, g4)"
  shows "key = ''audiences/show/'' @ g1 @ ''/'' @ g2 @ ''-'' @ g3 @ ''.'' @ g4 @ ''.audience.txt''"
proof -
  from assms obtain rest middle rest1 rest2 where
    a: "stripPrefix ''audiences/show/'' key = Some rest"
    and b: "stripSuffix ''.audience.txt'' rest = Some middle"
    and c: "splitAtFirst CHR ''/'' middle = Some (g1, rest1)"
    and d: "splitAtFirst CHR ''-'' rest1 = Some (g2, rest2)"
    and e: "splitAtFirst CHR ''.'' rest2 = Some (g3, g4)"
    by (auto simp: matchAudienceKey_def split: option.splits if_splits)
  from stripPrefix_Some [OF a] stripSuffix_Some [OF b] splitAtFirst_Some [OF c]
    splitAtFirst_Some [OF d] splitAtFirst_Some [OF e]
  show ?thesis
    by simp
qed

lemma unpackAudienceKey_Inr:
  assumes "unpackAudienceKey env key = Inr (u, d, p)"
  shows "key = computeAudienceKey u d p \<and> isValidUuid env u"
proof -
  from assms obtain g2 g4 where m: "matchAudienceKey key = Some (u, g2, d, g4)"
    and same: "u = g2" and valid: "isValidUuid env u"
    and p: "p = (if g4 = ''all'' then None else Some g4)"
    by (auto simp: unpackAudienceKey_def split: option.splits if_splits)
  from matchAudienceKey_Some [OF m] same p valid show ?thesis
    by (simp add: computeAudienceKey_def)
qed

text \<open>A loop that succeeds has read daily files only.\<close>

lemma processAudienceKeys_daily:
  assumes "processAudienceKeys env statsBlobs partObj acc keys = Inr acc'"
    and "key \<in> set keys"
  shows "\<exists>u d p. unpackAudienceKey env key = Inr (u, d, p) \<and> isValidDate env d"
  using assms
proof (induction keys arbitrary: acc)
  case Nil
  then show ?case by simp
next
  case (Cons k keys)
  from Cons.prems(1) obtain acc1 where
    step: "processAudienceKey env statsBlobs partObj acc k = Inr acc1"
    and rest: "processAudienceKeys env statsBlobs partObj acc1 keys = Inr acc'"
    by (auto split: sum.splits)
  show ?case
  proof (cases "key = k")
    case True
    from step show ?thesis
      by (auto simp: True processAudienceKey_def check_def split: option.splits sum.splits if_splits)
  next
    case False
    with Cons.prems(2) have "key \<in> set keys" by simp
    with Cons.IH [OF rest] show ?thesis by blast
  qed
qed

lemma blobs_put_listing:
  assumes "\<not> prefix keyPrefix key"
  shows "blobs_list (blobs_put store key v) keyPrefix = blobs_list store keyPrefix"
  using assms by (simp add: blobs_list_def blobs_put_def update_keys)

lemma blobs_put_get:
  assumes "key' \<noteq> key"
  shows "blobs_get (blobs_put store key v) key' = blobs_get store key'"
  using assms by (simp add: blobs_get_def blobs_put_def update_conv')

lemma processAudienceKeys_cong:
  assumes "\<forall>key \<in> set keys. blobs_get store' key = blobs_get store key"
  shows "processAudienceKeys env store' partObj acc keys
     = processAudienceKeys env store partObj acc keys"
  using assms
proof (induction keys arbitrary: acc)
  case Nil
  then show ?case by simp
next
  case (Cons key keys)
  then have here: "processAudienceKey env store' partObj acc key
      = processAudienceKey env store partObj acc key"
    by (simp add: processAudienceKey_def)
  from Cons have "\<And>acc1. processAudienceKeys env store' partObj acc1 keys
      = processAudienceKeys env store partObj acc1 keys"
    by simp
  with here show ?case
    by (simp split: sum.splits)
qed

lemma collectAudience_put:
  assumes "\<not> prefix (computeAudienceKeyPrefix uuid mth) key"
  shows "collectAudience env (blobs_put store key v) uuid mth partObj
     = collectAudience env store uuid mth partObj"
proof -
  have "\<forall>k \<in> set (blobs_list store (computeAudienceKeyPrefix uuid mth)).
      blobs_get (blobs_put store key v) k = blobs_get store k"
  proof
    fix k assume "k \<in> set (blobs_list store (computeAudienceKeyPrefix uuid mth))"
    then have "prefix (computeAudienceKeyPrefix uuid mth) k"
      by (simp add: blobs_list_def)
    with assms have "k \<noteq> key" by blast
    then show "blobs_get (blobs_put store key v) k = blobs_get store k"
      by (rule blobs_put_get)
  qed
  then show ?thesis
    by (simp add: collectAudience_def blobs_put_listing [OF assms] processAudienceKeys_cong)
qed

lemma collectAudience_puts:
  assumes "\<forall>(key, b) \<in> set ws. \<not> prefix (computeAudienceKeyPrefix uuid mth) key"
  shows "collectAudience env (foldl (\<lambda>s (key, b). blobs_put s key (render b)) store ws)
       uuid mth partObj
     = collectAudience env store uuid mth partObj"
  using assms
proof (induction ws arbitrary: store)
  case Nil
  then show ?case by simp
next
  case (Cons w ws)
  obtain key b where w: "w = (key, b)"
    by (cases w)
  from Cons.prems w have key: "\<not> prefix (computeAudienceKeyPrefix uuid mth) key"
    and rest: "\<forall>(key, b) \<in> set ws. \<not> prefix (computeAudienceKeyPrefix uuid mth) key"
    by auto
  from Cons.IH [OF rest, of "blobs_put store key (render b)"] collectAudience_put [OF key]
  show ?case
    by (simp add: w)
qed

lemma recomputeAudienceForMonth_cong:
  assumes "collectAudience env store' uuid mth partObj = collectAudience env store uuid mth partObj"
  shows "recomputeAudienceForMonth env store' putOutcome n uuid mth partObj
     = recomputeAudienceForMonth env store putOutcome n uuid mth partObj"
  using assms by (simp add: recomputeAudienceForMonth_def)

lemma prefix_not_audience_key:
  "\<not> prefix (computeAudienceKeyPrefix uuid mth) (computeAudienceKey uuid mth prt)"
  by (simp add: computeAudienceKeyPrefix_def computeAudienceKey_def)

lemma prefix_not_summary_key:
  "\<not> prefix (computeAudienceKeyPrefix uuid mth) (computeAudienceSummaryKey uuid' mth' prt)"
  by (simp add: computeAudienceKeyPrefix_def computeAudienceSummaryKey_def)

lemma writtenBlobs_keys:
  assumes "(key, b) \<in> set (writtenBlobs
      (recomputeAudienceForMonth env store putOutcome n uuid mth partObj))"
  shows "key = computeAudienceKey uuid mth (partString partObj)
     \<or> key = computeAudienceSummaryKey uuid mth (partString partObj)"
proof (cases "collectAudience env store uuid mth partObj")
  case (Inl e)
  with assms show ?thesis
    by (simp add: recomputeAudienceForMonth_failed writtenBlobs_def)
next
  case (Inr acc)
  from assms show ?thesis
    unfolding writtenBlobs_collected [OF Inr]
    by (auto simp: audienceCalls_def summaryCall_def split: if_splits
        dest!: in_set_takeD in_set_dropD)
qed

text \<open>
  C10. The prefix under which \<open>recomputeAudienceForMonth\<close> lists its inputs,
  \<open>audiences/show/<uuid>/<uuid>-<month>-\<close>, is never a prefix of a monthly audience key
  that the reducer writes for that show and month (whatever the part), so the listing
  never returns such a key, while it is a prefix of every daily key of the month. In a
  run whose loop succeeds, every listed key is the audience key of a valid date: a
  daily key. And a re-run does not read what a run has written: on the store that a
  run leaves (whatever its part, the outcomes of its writes and their interleaving),
  the loop of a run for the same show and month gives what it gives on the store
  before, and so does the whole run.
\<close>

theorem audience_listing_prefix_excludes_monthly_key:
  "\<not> prefix (computeAudienceKeyPrefix uuid mth) (computeAudienceKey uuid mth prt)
   \<and> computeAudienceKey uuid mth prt
        \<notin> set (blobs_list store (computeAudienceKeyPrefix uuid mth))
   \<and> prefix (computeAudienceKeyPrefix uuid mth)
        (computeAudienceKey uuid (mth @ ''-'' @ day) None)
   \<and> (collectAudience env store uuid mth partObj = Inr acc
        \<and> key \<in> set (blobs_list store (computeAudienceKeyPrefix uuid mth))
      \<longrightarrow> (\<exists>u d p. key = computeAudienceKey u d p \<and> isValidDate env d))
   \<and> collectAudience env
        (storeAfter render store
           (recomputeAudienceForMonth env store putOutcome n uuid mth partObj'))
        uuid mth partObj
      = collectAudience env store uuid mth partObj
   \<and> recomputeAudienceForMonth env
        (storeAfter render store
           (recomputeAudienceForMonth env store putOutcome n uuid mth partObj'))
        putOutcome' n' uuid mth partObj
      = recomputeAudienceForMonth env store putOutcome' n' uuid mth partObj"
proof -
  let ?first = "recomputeAudienceForMonth env store putOutcome n uuid mth partObj'"
  have a: "\<not> prefix (computeAudienceKeyPrefix uuid mth) (computeAudienceKey uuid mth prt)"
    by (rule prefix_not_audience_key)
  have b: "computeAudienceKey uuid mth prt
      \<notin> set (blobs_list store (computeAudienceKeyPrefix uuid mth))"
    using a by (simp add: blobs_list_def)
  have c: "prefix (computeAudienceKeyPrefix uuid mth)
      (computeAudienceKey uuid (mth @ ''-'' @ day) None)"
    by (simp add: computeAudienceKeyPrefix_def computeAudienceKey_def)
  have d: "\<exists>u d p. key = computeAudienceKey u d p \<and> isValidDate env d"
    if loop: "collectAudience env store uuid mth partObj = Inr acc"
      and listed: "key \<in> set (blobs_list store (computeAudienceKeyPrefix uuid mth))"
  proof -
    from loop listed obtain u d p where
      "unpackAudienceKey env key = Inr (u, d, p)" and "isValidDate env d"
      unfolding collectAudience_def using processAudienceKeys_daily by blast
    with unpackAudienceKey_Inr show ?thesis
      by blast
  qed
  have "\<forall>(key, b) \<in> set (writtenBlobs ?first).
      \<not> prefix (computeAudienceKeyPrefix uuid mth) key"
    using writtenBlobs_keys prefix_not_audience_key prefix_not_summary_key by fastforce
  then have e: "collectAudience env (storeAfter render store ?first) uuid mth partObj
      = collectAudience env store uuid mth partObj"
    unfolding storeAfter_def by (rule collectAudience_puts)
  have f: "recomputeAudienceForMonth env (storeAfter render store ?first)
        putOutcome' n' uuid mth partObj
      = recomputeAudienceForMonth env store putOutcome' n' uuid mth partObj"
    using e by (rule recomputeAudienceForMonth_cong)
  from a b c d e f show ?thesis
    by blast
qed

theorem audience_listing_prefix_excludes_monthly_key_witness:
  "(\<exists>u d p. computeAudienceKey exampleShow ''2024-03-05'' None = computeAudienceKey u d p
       \<and> isValidDate exampleImported d)
   \<and> computeAudienceKey exampleShow ''2024-03'' None
        \<notin> set (blobs_list exampleAudienceBlobs (computeAudienceKeyPrefix exampleShow ''2024-03''))
   \<and> recomputeAudienceForMonth exampleImported
        (storeAfter (\<lambda>b. case b of Text t \<Rightarrow> t | Json v \<Rightarrow> ''{}'') exampleAudienceBlobs
           (recomputeAudienceForMonth exampleImported exampleAudienceBlobs (\<lambda>key n. None) 0
              exampleShow ''2024-03'' None))
        (\<lambda>key n. None) 0 exampleShow ''2024-03'' None
      = recomputeAudienceForMonth exampleImported exampleAudienceBlobs (\<lambda>key n. None) 0
          exampleShow ''2024-03'' None"
  using audience_listing_prefix_excludes_monthly_key
    [of exampleShow "''2024-03''" None exampleAudienceBlobs "''05''" exampleImported None
        "\<lparr> audience_acc.audienceTimestamps =
             [(''0a00000000000000000000000000000000000000000000000000000000000001'',
               ''240305101500000''),
              (''4b00000000000000000000000000000000000000000000000000000000000002'',
               ''240305101600000''),
              (''cf00000000000000000000000000000000000000000000000000000000000003'',
               ''240305101700000'')],
           dailyFoundAudience = [(''2024-03-05'', 4)],
           audience_acc.count = 3 \<rparr>"
        "computeAudienceKey exampleShow ''2024-03-05'' None"
        "\<lambda>b. case b of Text t \<Rightarrow> t | Json v \<Rightarrow> ''{}''" "\<lambda>key n. None" 0 None
        "\<lambda>key n. None" 0]
    exampleAudience_collect exampleAudience_listing
  by simp

section \<open>Claims about the daily computer\<close>

text \<open>
  C1. Whenever \<open>computeShowSummaryForDate\<close> returns a summary, the source daily blob
  exists and the total of the summary's \<open>hourlyDownloads\<close> is the number of its records
  whose \<open>botType\<close> is unset.
\<close>

theorem daily_total_is_count_of_non_bot_rows:
  assumes "computeShowSummaryForDate env uuid date statsBlobs = Inr (summary, timestamps)"
  shows "\<exists>stream etag.
           blobs_get statsBlobs (computeShowDailyKey env uuid date) = Some (stream, etag)
           \<and> total (ShowSummary.hourlyDownloads (asShowSummary summary))
               = int (length (filter (\<lambda>obj. botType obj = None) stream))"
proof -
  from assms obtain stream etag acc where
    blob: "blobs_get statsBlobs (computeShowDailyKey env uuid date) = Some (stream, etag)"
    and loop: "processRows env
        \<lparr> daily_acc.hourlyDownloads = [], daily_acc.episodes = [],
          audienceTimestamps = [], daily_acc.dimensionDownloads = [] \<rparr> stream = Inr acc"
    and summary: "summary = computeSorted
        (summaryObject uuid date (daily_acc.hourlyDownloads acc) (daily_acc.episodes acc)
           (daily_acc.dimensionDownloads acc) [(computeShowDailyKey env uuid date, etag)])"
    by (auto simp: computeShowSummaryForDate_def Let_def split: option.splits sum.splits)
  have "total (ShowSummary.hourlyDownloads (asShowSummary summary))
      = total (daily_acc.hourlyDownloads acc)"
    by (simp add: summary asShowSummary_computeSorted)
  also have "\<dots> = int (length (filter (\<lambda>obj. botType obj = None) stream))"
    using processRows_total [OF loop] by (simp add: total_def)
  finally show ?thesis
    using blob by blast
qed

lemma exampleRows_result:
  "computeShowSummaryForDate exampleImported exampleShow ''2024-03-05''
     (exampleDailyBlobs exampleRows) =
   Inr (JObject
         [(''dimensionDownloads'',
           JObject
            [(''countryCode'', JObject [(''XX'', JNumber 1), (''CA'', JNumber 1)]),
             (''deviceType'', JObject [(''unknown'', JNumber 2)]),
             (''deviceName'', JObject [(''Unknown'', JNumber 2)]),
             (''caRegion'', JObject [(''Unknown'', JNumber 1)])]),
          (''episodes'',
           JObject
            [(''E1'',
              JObject
               [(''hourlyDownloads'', JObject [(''2024-03-05T11'', JNumber 1)]),
                (''firstHour'', JString ''2024-03-05T11'')])]),
          (''hourlyDownloads'',
           JObject [(''2024-03-05T11'', JNumber 1), (''2024-03-05T10'', JNumber 1)]),
          (''period'', JString ''2024-03-05''),
          (''showUuid'', JString exampleShow),
          (''sources'',
           JObject
            [(computeShowDailyKey exampleImported exampleShow ''2024-03-05'',
              JString ''etag1'')])],
        [(''a1'', ''202403051101000'')])"
  by (simp add: computeShowSummaryForDate_def exampleDailyBlobs_def blobs_get_def
      exampleRows_def emptyRow_def exampleImported_def processRow_def Let_def truthy_def
      recordEpisode_def increment_def incrementBy_def incrementDimension_def
      dimensionIncrements_def orDefault_def isDigit_def
      computeSorted_summaryObject numberRecord_def stringRecord_def episodesObject_def
      episodeObject_def dimensionsObject_def)

theorem daily_total_is_count_of_non_bot_rows_witness:
  "\<exists>summary timestamps.
     computeShowSummaryForDate exampleImported exampleShow ''2024-03-05''
       (exampleDailyBlobs exampleRows) = Inr (summary, timestamps)
     \<and> total (ShowSummary.hourlyDownloads (asShowSummary summary)) = 2
     \<and> int (length (filter (\<lambda>obj. botType obj = None) exampleRows)) = 2"
proof -
  obtain summary timestamps where
    run: "computeShowSummaryForDate exampleImported exampleShow ''2024-03-05''
      (exampleDailyBlobs exampleRows) = Inr (summary, timestamps)"
    using exampleRows_result by blast
  have count: "int (length (filter (\<lambda>obj. botType obj = None) exampleRows)) = 2"
    by (simp add: exampleRows_def emptyRow_def)
  from daily_total_is_count_of_non_bot_rows [OF run] obtain stream etag where
    blob: "blobs_get (exampleDailyBlobs exampleRows)
        (computeShowDailyKey exampleImported exampleShow ''2024-03-05'') = Some (stream, etag)"
    and tot: "total (ShowSummary.hourlyDownloads (asShowSummary summary))
        = int (length (filter (\<lambda>obj. botType obj = None) stream))"
    by blast
  from blob have "stream = exampleRows"
    by (simp add: exampleDailyBlobs_def blobs_get_def)
  with tot count run show ?thesis
    by auto
qed

lemma processRows_no_time:
  assumes "time obj = None"
  shows "processRows env acc (before @ obj # after)
     = (case processRows env acc before of Inl e \<Rightarrow> Inl e | Inr acc' \<Rightarrow> Inl UndefinedTime)"
  using assms by (simp add: processRows_append processRow_def split: sum.splits)

text \<open>
  C5, as the code has it. A record whose \<open>botType\<close> is set and whose \<open>time\<close> is present
  is skipped: the loop body leaves every accumulator as it is, and the result of
  \<open>computeShowSummaryForDate\<close> (the summary and the audience timestamps, or the error) is
  the result for the blob without the record. The presence of \<open>time\<close> is checked first,
  for every record: on a record without \<open>time\<close>, whether or not its \<open>botType\<close> is set,
  the loop body fails with \<open>Undefined time\<close>, and the computation on a blob that has
  such a record fails, with the error of the records before it when they fail, and
  with \<open>Undefined time\<close> when they give a summary.
\<close>

theorem bot_row_with_time_is_skipped:
  "(botType obj \<noteq> None \<and> time obj \<noteq> None
      \<longrightarrow> processRow env acc obj = Inr acc
        \<and> (blobs_get blobs1 (computeShowDailyKey env uuid date) = Some (before @ obj # after, etag)
           \<and> blobs_get blobs2 (computeShowDailyKey env uuid date) = Some (before @ after, etag)
           \<longrightarrow> computeShowSummaryForDate env uuid date blobs1
               = computeShowSummaryForDate env uuid date blobs2))
   \<and> (time obj = None
      \<longrightarrow> processRow env acc obj = Inl UndefinedTime
        \<and> (blobs_get blobs1 (computeShowDailyKey env uuid date) = Some (before @ obj # after, etag)
           \<longrightarrow> isl (computeShowSummaryForDate env uuid date blobs1))
        \<and> (blobs_get blobs1 (computeShowDailyKey env uuid date) = Some (before @ obj # after, etag)
           \<and> blobs_get blobs0 (computeShowDailyKey env uuid date) = Some (before, etag0)
           \<longrightarrow> computeShowSummaryForDate env uuid date blobs1
               = (case computeShowSummaryForDate env uuid date blobs0 of
                    Inl e \<Rightarrow> Inl e
                  | Inr result \<Rightarrow> Inl UndefinedTime)))"
proof -
  have skipped: "processRow env acc obj = Inr acc"
    if "botType obj \<noteq> None" and "time obj \<noteq> None"
    using that by (rule processRow_bot)
  have same: "computeShowSummaryForDate env uuid date blobs1
      = computeShowSummaryForDate env uuid date blobs2"
    if "botType obj \<noteq> None" and "time obj \<noteq> None"
      and "blobs_get blobs1 (computeShowDailyKey env uuid date) = Some (before @ obj # after, etag)"
      and "blobs_get blobs2 (computeShowDailyKey env uuid date) = Some (before @ after, etag)"
    using that by (simp add: computeShowSummaryForDate_def Let_def processRows_skip_bot)
  have body: "processRow env acc obj = Inl UndefinedTime" if "time obj = None"
    using that by (simp add: processRow_def)
  have fails: "isl (computeShowSummaryForDate env uuid date blobs1)"
    if "time obj = None"
      and "blobs_get blobs1 (computeShowDailyKey env uuid date) = Some (before @ obj # after, etag)"
    using that
    by (simp add: computeShowSummaryForDate_def Let_def processRows_no_time split: sum.splits)
  have error: "computeShowSummaryForDate env uuid date blobs1
      = (case computeShowSummaryForDate env uuid date blobs0 of
           Inl e \<Rightarrow> Inl e
         | Inr result \<Rightarrow> Inl UndefinedTime)"
    if "time obj = None"
      and "blobs_get blobs1 (computeShowDailyKey env uuid date) = Some (before @ obj # after, etag)"
      and "blobs_get blobs0 (computeShowDailyKey env uuid date) = Some (before, etag0)"
    using that
    by (simp add: computeShowSummaryForDate_def Let_def processRows_no_time split: sum.splits)
  from skipped same body fails error show ?thesis
    by blast
qed

theorem bot_row_with_time_is_skipped_witness:
  "computeShowSummaryForDate exampleImported exampleShow ''2024-03-05''
     (exampleDailyBlobs exampleRows)
   = computeShowSummaryForDate exampleImported exampleShow ''2024-03-05''
       (exampleDailyBlobs [exampleRows ! 0, exampleRows ! 2])
   \<and> botType (exampleRows ! 1) = Some ''bot''
   \<and> time (exampleRows ! 1) = Some ''2024-03-05T10:15:00.000Z''
   \<and> computeShowSummaryForDate exampleImported exampleShow ''2024-03-05''
       (exampleDailyBlobs [exampleRows ! 0, emptyRow\<lparr> countryCode := Some ''CA'' \<rparr>,
                           exampleRows ! 2])
     = Inl UndefinedTime
   \<and> time (emptyRow\<lparr> countryCode := Some ''CA'' \<rparr>) = None"
proof -
  let ?key = "computeShowDailyKey exampleImported exampleShow ''2024-03-05''"
  let ?late = "emptyRow\<lparr> countryCode := Some ''CA'' \<rparr>"
  have bot: "botType (exampleRows ! 1) \<noteq> None" and t: "time (exampleRows ! 1) \<noteq> None"
    by (simp_all add: exampleRows_def emptyRow_def)
  have b1: "blobs_get (exampleDailyBlobs exampleRows) ?key
      = Some ([exampleRows ! 0] @ (exampleRows ! 1) # [exampleRows ! 2], ''etag1'')"
    by (simp add: exampleDailyBlobs_def blobs_get_def exampleRows_def)
  have b2: "blobs_get (exampleDailyBlobs [exampleRows ! 0, exampleRows ! 2]) ?key
      = Some ([exampleRows ! 0] @ [exampleRows ! 2], ''etag1'')"
    by (simp add: exampleDailyBlobs_def blobs_get_def)
  from bot_row_with_time_is_skipped
    [of "exampleRows ! 1" exampleImported
        "\<lparr> daily_acc.hourlyDownloads = [], daily_acc.episodes = [], audienceTimestamps = [],
           daily_acc.dimensionDownloads = [] \<rparr>"
        "exampleDailyBlobs exampleRows" exampleShow
        "''2024-03-05''" "[exampleRows ! 0]" "[exampleRows ! 2]" "''etag1''"
        "exampleDailyBlobs [exampleRows ! 0, exampleRows ! 2]"]
    bot t b1 b2
  have skipped: "computeShowSummaryForDate exampleImported exampleShow ''2024-03-05''
      (exampleDailyBlobs exampleRows)
    = computeShowSummaryForDate exampleImported exampleShow ''2024-03-05''
        (exampleDailyBlobs [exampleRows ! 0, exampleRows ! 2])"
    by blast
  have none: "time ?late = None"
    by (simp add: emptyRow_def)
  have c1: "blobs_get (exampleDailyBlobs [exampleRows ! 0, ?late, exampleRows ! 2]) ?key
      = Some ([exampleRows ! 0] @ ?late # [exampleRows ! 2], ''etag1'')"
    by (simp add: exampleDailyBlobs_def blobs_get_def)
  have c0: "blobs_get (exampleDailyBlobs [exampleRows ! 0]) ?key
      = Some ([exampleRows ! 0], ''etag1'')"
    by (simp add: exampleDailyBlobs_def blobs_get_def)
  have first: "\<not> isl (computeShowSummaryForDate exampleImported exampleShow ''2024-03-05''
      (exampleDailyBlobs [exampleRows ! 0]))"
    by (simp add: computeShowSummaryForDate_def exampleDailyBlobs_def blobs_get_def
        exampleRows_def emptyRow_def exampleImported_def processRow_def Let_def truthy_def
        isDigit_def)
  from bot_row_with_time_is_skipped
    [of ?late exampleImported
        "\<lparr> daily_acc.hourlyDownloads = [], daily_acc.episodes = [], audienceTimestamps = [],
           daily_acc.dimensionDownloads = [] \<rparr>"
        "exampleDailyBlobs [exampleRows ! 0, ?late, exampleRows ! 2]" exampleShow
        "''2024-03-05''" "[exampleRows ! 0]" "[exampleRows ! 2]" "''etag1''" "[]"
        "exampleDailyBlobs [exampleRows ! 0]" "''etag1''"]
    none c1 c0
  have "computeShowSummaryForDate exampleImported exampleShow ''2024-03-05''
      (exampleDailyBlobs [exampleRows ! 0, ?late, exampleRows ! 2])
    = (case computeShowSummaryForDate exampleImported exampleShow ''2024-03-05''
              (exampleDailyBlobs [exampleRows ! 0]) of
         Inl e \<Rightarrow> Inl e
       | Inr result \<Rightarrow> Inl UndefinedTime)"
    by blast
  with first have failed: "computeShowSummaryForDate exampleImported exampleShow ''2024-03-05''
      (exampleDailyBlobs [exampleRows ! 0, ?late, exampleRows ! 2]) = Inl UndefinedTime"
    by (simp split: sum.splits)
  from skipped failed none show ?thesis
    by (simp add: exampleRows_def emptyRow_def)
qed

text \<open>
  The claim as stated fails: a bot's record without \<open>time\<close> is not skipped, the
  computation fails on it with \<open>Undefined time\<close>, where the blob without the record
  gives a summary.
\<close>

theorem bot_row_without_time_fails:
  "computeShowSummaryForDate exampleImported exampleShow ''2024-03-05''
     (exampleDailyBlobs [emptyRow\<lparr> botType := Some ''bot'' \<rparr>]) = Inl UndefinedTime
   \<and> computeShowSummaryForDate exampleImported exampleShow ''2024-03-05''
       (exampleDailyBlobs []) \<noteq> Inl UndefinedTime"
  by (simp add: computeShowSummaryForDate_def exampleDailyBlobs_def blobs_get_def
      emptyRow_def processRow_def)

section \<open>Claims about the monthly aggregator\<close>

lemma aggregateRead_simp:
  "aggregateRead acc (k, summary, etag) =
     \<lparr> aggregate_acc.hourlyDownloads =
         incrementAll (aggregate_acc.hourlyDownloads acc) (ShowSummary.hourlyDownloads summary),
       aggregate_acc.sources = AList.update k etag (aggregate_acc.sources acc),
       aggregate_acc.episodes =
         foldl aggregateEpisode (aggregate_acc.episodes acc) (ShowSummary.episodes summary),
       aggregate_acc.dimensionDownloads =
         foldl aggregateDimension (aggregate_acc.dimensionDownloads acc)
           (case ShowSummary.dimensionDownloads summary of None \<Rightarrow> [] | Some dims \<Rightarrow> dims) \<rparr>"
  by (simp add: aggregateRead_def aggregateResult_def)

lemma foldl_aggregateResult_read:
  "foldl aggregateResult acc (map (\<lambda>v. (v, blobs_get statsBlobs v)) inputKeys)
     = foldl aggregateRead acc (readSummaries statsBlobs inputKeys)"
proof (induction inputKeys arbitrary: acc)
  case Nil
  then show ?case
    by (simp add: readSummaries_def List.map_filter_simps)
next
  case (Cons k ks)
  show ?case
  proof (cases "blobs_get statsBlobs k")
    case None
    then show ?thesis
      using Cons.IH [of acc]
      by (simp add: readSummaries_def List.map_filter_simps aggregateResult_def)
  next
    case (Some r)
    obtain summary etag where r: "r = (summary, etag)"
      by (cases r)
    show ?thesis
      using Cons.IH [of "aggregateRead acc (k, summary, etag)"] Some r
      by (simp add: readSummaries_def List.map_filter_simps aggregateRead_def)
  qed
qed

lemma readSummaries_filter:
  "readSummaries statsBlobs [k \<leftarrow> inputKeys. blobs_get statsBlobs k \<noteq> None]
     = readSummaries statsBlobs inputKeys"
proof (induction inputKeys)
  case Nil
  then show ?case by simp
next
  case (Cons k ks)
  then show ?case
    by (cases "blobs_get statsBlobs k") (simp_all add: readSummaries_def List.map_filter_simps)
qed

lemma readSummaries_mem:
  "(k, summary, etag) \<in> set (readSummaries statsBlobs inputKeys)
     \<longleftrightarrow> k \<in> set inputKeys \<and> blobs_get statsBlobs k = Some (summary, etag)"
  by (induction inputKeys) (auto simp: readSummaries_def List.map_filter_simps split: option.splits)

lemma aggregate_total:
  "total (aggregate_acc.hourlyDownloads
       (foldl aggregateRead acc rs))
     = total (aggregate_acc.hourlyDownloads acc)
       + (\<Sum>(k, summary, etag) \<leftarrow> rs. total (ShowSummary.hourlyDownloads summary))"
proof (induction rs arbitrary: acc)
  case Nil
  then show ?case by simp
next
  case (Cons r rs)
  obtain k summary etag where r: "r = (k, summary, etag)"
    by (cases r)
  show ?case
    by (simp add: r Cons.IH aggregateRead_simp total_incrementAll)
qed

lemma aggregate_sources:
  assumes "\<And>k summary etag. (k, summary, etag) \<in> set rs \<Longrightarrow> lookup k = Some (summary, etag)"
  shows "map_of (aggregate_acc.sources
       (foldl aggregateRead acc rs)) k'
     = (if k' \<in> fst ` set rs then map_option snd (lookup k')
        else map_of (aggregate_acc.sources acc) k')"
  using assms
proof (induction rs arbitrary: acc)
  case Nil
  then show ?case by simp
next
  case (Cons r rs)
  obtain k summary etag where r: "r = (k, summary, etag)"
    by (cases r)
  have here: "lookup k = Some (summary, etag)"
    using Cons.prems [of k summary etag] by (simp add: r)
  have step: "map_of (aggregate_acc.sources (aggregateRead acc (k, summary, etag)))
      = (map_of (aggregate_acc.sources acc))(k \<mapsto> etag)"
    by (simp add: aggregateRead_simp update_conv')
  have "map_of (aggregate_acc.sources
       (foldl aggregateRead (aggregateRead acc (k, summary, etag)) rs)) k'
     = (if k' \<in> fst ` set rs then map_option snd (lookup k')
        else map_of (aggregate_acc.sources (aggregateRead acc (k, summary, etag))) k')"
    using Cons.prems by (intro Cons.IH) simp
  then show ?case
    using here by (simp add: r step)
qed

lemma aggregate_sources_distinct:
  "distinct (map fst (aggregate_acc.sources acc)) \<Longrightarrow>
   distinct (map fst (aggregate_acc.sources
       (foldl aggregateRead acc rs)))"
proof (induction rs arbitrary: acc)
  case Nil
  then show ?case by simp
next
  case (Cons r rs)
  obtain k summary etag where r: "r = (k, summary, etag)"
    by (cases r)
  have "distinct (map fst (aggregate_acc.sources (aggregateRead acc (k, summary, etag))))"
    using Cons.prems by (simp add: aggregateRead_simp distinct_update)
  then show ?case
    by (simp add: r Cons.IH)
qed

lemma countOf_incrementBy:
  "countOf (incrementBy m k delta) k' = countOf m k' + (if k = k' then delta else 0)"
  by (simp add: countOf_def incrementBy_def update_conv')

lemma countOf_absent: "k \<notin> fst ` set m \<Longrightarrow> countOf m k = 0"
  using map_of_eq_None_iff [of m k] by (simp add: countOf_def)

lemma countOf_incrementAll:
  assumes "distinct (map fst src)"
  shows "countOf (incrementAll dest src) k = countOf dest k + countOf src k"
proof -
  have "countOf (foldl (\<lambda>d (k, v). incrementBy d k v) dest src) k = countOf dest k + countOf src k"
    using assms
  proof (induction src arbitrary: dest)
    case Nil
    then show ?case by (simp add: countOf_def)
  next
    case (Cons p src)
    obtain a v where p: "p = (a, v)"
      by (cases p)
    from Cons.prems have a: "a \<notin> fst ` set src" and d: "distinct (map fst src)"
      by (simp_all add: p)
    have "countOf ((a, v) # src) k = (if a = k then v else 0) + countOf src k"
      using countOf_absent [OF a] by (auto simp: countOf_def)
    then show ?case
      using Cons.IH [OF d, of "incrementBy dest a v"]
      by (simp add: p countOf_incrementBy)
  qed
  then show ?thesis
    by (simp add: incrementAll_def)
qed

lemma bucketOf_aggregateDimension:
  assumes "distinct (map fst downloads)"
  shows "bucketOf (aggregateDimension dims (dimension, downloads)) d l
     = bucketOf dims d l + (if dimension = d then countOf downloads l else 0)"
  using assms
  by (auto simp: bucketOf_def aggregateDimension_def update_conv' countOf_incrementAll
      split: option.splits) (simp_all add: countOf_def)

lemma bucketOf_Nil [simp]: "bucketOf [] d l = 0"
  by (simp add: bucketOf_def)

lemma bucketOf_absent: "d \<notin> fst ` set dims \<Longrightarrow> bucketOf dims d l = 0"
  using map_of_eq_None_iff [of dims d] by (simp add: bucketOf_def)

lemma bucketOf_foldl_aggregateDimension:
  assumes "distinct (map fst src)" and "list_all (\<lambda>(k, m). distinct (map fst m)) src"
  shows "bucketOf (foldl aggregateDimension dims src) d l = bucketOf dims d l + bucketOf src d l"
  using assms
proof (induction src arbitrary: dims)
  case Nil
  then show ?case by (simp add: bucketOf_def)
next
  case (Cons p src)
  obtain dimension downloads where p: "p = (dimension, downloads)"
    by (cases p)
  from Cons.prems have a: "dimension \<notin> fst ` set src" and d: "distinct (map fst src)"
    and dl: "distinct (map fst downloads)" and rest: "list_all (\<lambda>(k, m). distinct (map fst m)) src"
    by (simp_all add: p)
  have "bucketOf ((dimension, downloads) # src) d l
      = (if dimension = d then countOf downloads l else 0) + bucketOf src d l"
    using bucketOf_absent [OF a] by (auto simp: bucketOf_def)
  then show ?case
    using Cons.IH [OF d rest, of "aggregateDimension dims (dimension, downloads)"]
    by (simp add: p bucketOf_aggregateDimension [OF dl])
qed

lemma aggregate_bucket:
  assumes "list_all (\<lambda>(k, summary, etag). distinctDimensions summary) rs"
  shows "bucketOf (aggregate_acc.dimensionDownloads
       (foldl aggregateRead acc rs)) d l
     = bucketOf (aggregate_acc.dimensionDownloads acc) d l
       + (\<Sum>(k, summary, etag) \<leftarrow> rs. dimensionBucket summary d l)"
  using assms
proof (induction rs arbitrary: acc)
  case Nil
  then show ?case by simp
next
  case (Cons r rs)
  obtain k summary etag where r: "r = (k, summary, etag)"
    by (cases r)
  from Cons.prems have wf: "distinctDimensions summary"
    and rest: "list_all (\<lambda>(k, summary, etag). distinctDimensions summary) rs"
    by (simp_all add: r)
  have step: "bucketOf (aggregate_acc.dimensionDownloads
        (aggregateRead acc (k, summary, etag))) d l
      = bucketOf (aggregate_acc.dimensionDownloads acc) d l + dimensionBucket summary d l"
  proof (cases "ShowSummary.dimensionDownloads summary")
    case None
    then show ?thesis
      by (simp add: aggregateRead_simp dimensionBucket_def)
  next
    case (Some dims)
    with wf have "distinct (map fst dims)" and "list_all (\<lambda>(k, m). distinct (map fst m)) dims"
      by (simp_all add: distinctDimensions_def)
    then show ?thesis
      using Some
      by (simp add: aggregateRead_simp dimensionBucket_def bucketOf_foldl_aggregateDimension)
  qed
  show ?case
    using Cons.IH [OF rest, of "aggregateRead acc (k, summary, etag)"]
    by (simp add: r step)
qed

text \<open>
  C2. \<open>computeShowSummaryAggregate\<close> never fails; an input key without a blob is skipped
  (the result is the one for the input keys that have a blob). In the summary it
  returns, the total of \<open>hourlyDownloads\<close> is the sum of the totals of the summaries
  read, every bucket of every dimension is the sum of that bucket over the summaries
  read (their dimension maps having distinct keys, as the keys of an object are), and
  \<open>sources\<close> maps each input key that has a blob to the ETag read with it, and holds no
  other key.
\<close>

theorem aggregate_is_sum_of_read_summaries:
  assumes "list_all (\<lambda>(k, summary, etag). distinctDimensions summary)
             (readSummaries statsBlobs inputKeys)"
  shows "computeShowSummaryAggregate uuid inputKeys outputPeriod statsBlobs
           = computeShowSummaryAggregate uuid
               [k \<leftarrow> inputKeys. blobs_get statsBlobs k \<noteq> None] outputPeriod statsBlobs
     \<and> total (ShowSummary.hourlyDownloads
          (asShowSummary (computeShowSummaryAggregate uuid inputKeys outputPeriod statsBlobs)))
         = (\<Sum>(k, summary, etag) \<leftarrow> readSummaries statsBlobs inputKeys.
              total (ShowSummary.hourlyDownloads summary))
     \<and> dimensionBucket
          (asShowSummary (computeShowSummaryAggregate uuid inputKeys outputPeriod statsBlobs))
          dimension label
         = (\<Sum>(k, summary, etag) \<leftarrow> readSummaries statsBlobs inputKeys.
              dimensionBucket summary dimension label)
     \<and> map_of (ShowSummary.sources
          (asShowSummary (computeShowSummaryAggregate uuid inputKeys outputPeriod statsBlobs))) key
         = (if key \<in> set inputKeys then map_option snd (blobs_get statsBlobs key) else None)
     \<and> distinct (map fst (ShowSummary.sources
          (asShowSummary (computeShowSummaryAggregate uuid inputKeys outputPeriod statsBlobs))))"
proof -
  define acc0 where "acc0 =
    \<lparr> aggregate_acc.hourlyDownloads = [], aggregate_acc.sources = [],
      aggregate_acc.episodes = [], aggregate_acc.dimensionDownloads = [] \<rparr>"
  define rs where "rs = readSummaries statsBlobs inputKeys"
  define acc where "acc = foldl aggregateRead acc0 rs"
  have run: "computeShowSummaryAggregate uuid ks outputPeriod statsBlobs
      = computeSorted (summaryObject uuid outputPeriod
          (aggregate_acc.hourlyDownloads (foldl aggregateRead acc0 (readSummaries statsBlobs ks)))
          (aggregate_acc.episodes (foldl aggregateRead acc0 (readSummaries statsBlobs ks)))
          (aggregate_acc.dimensionDownloads (foldl aggregateRead acc0 (readSummaries statsBlobs ks)))
          (aggregate_acc.sources (foldl aggregateRead acc0 (readSummaries statsBlobs ks))))" for ks
    by (simp add: computeShowSummaryAggregate_def Let_def foldl_aggregateResult_read acc0_def)
  have out: "asShowSummary (computeShowSummaryAggregate uuid inputKeys outputPeriod statsBlobs)
      = \<lparr> ShowSummary.showUuid = uuid, period = outputPeriod,
          ShowSummary.hourlyDownloads = aggregate_acc.hourlyDownloads acc,
          ShowSummary.episodes = aggregate_acc.episodes acc,
          ShowSummary.sources = aggregate_acc.sources acc,
          ShowSummary.dimensionDownloads = Some (aggregate_acc.dimensionDownloads acc) \<rparr>"
    by (simp add: run asShowSummary_computeSorted acc_def rs_def)
  have skipped: "computeShowSummaryAggregate uuid inputKeys outputPeriod statsBlobs
      = computeShowSummaryAggregate uuid
          [k \<leftarrow> inputKeys. blobs_get statsBlobs k \<noteq> None] outputPeriod statsBlobs"
    by (simp only: run readSummaries_filter)
  have tot: "total (aggregate_acc.hourlyDownloads acc)
      = (\<Sum>(k, summary, etag) \<leftarrow> rs. total (ShowSummary.hourlyDownloads summary))"
    using aggregate_total [of acc0 rs] by (simp add: acc_def acc0_def)
  have bucket: "bucketOf (aggregate_acc.dimensionDownloads acc) dimension label
      = (\<Sum>(k, summary, etag) \<leftarrow> rs. dimensionBucket summary dimension label)"
    using assms aggregate_bucket [of rs acc0 dimension label] by (simp add: acc_def rs_def acc0_def)
  have consistent: "blobs_get statsBlobs k = Some (summary, etag)"
    if "(k, summary, etag) \<in> set rs" for k summary etag
    using that by (simp add: rs_def readSummaries_mem)
  have keys: "key \<in> fst ` set rs \<longleftrightarrow> key \<in> set inputKeys \<and> blobs_get statsBlobs key \<noteq> None"
  proof
    assume "key \<in> fst ` set rs"
    then obtain summary etag where "(key, summary, etag) \<in> set rs"
      by auto
    then show "key \<in> set inputKeys \<and> blobs_get statsBlobs key \<noteq> None"
      by (simp add: rs_def readSummaries_mem)
  next
    assume a: "key \<in> set inputKeys \<and> blobs_get statsBlobs key \<noteq> None"
    then obtain summary etag where "blobs_get statsBlobs key = Some (summary, etag)"
      by auto
    with a have "(key, summary, etag) \<in> set rs"
      by (simp add: rs_def readSummaries_mem)
    then show "key \<in> fst ` set rs"
      by force
  qed
  have "map_of (aggregate_acc.sources acc) key
      = (if key \<in> fst ` set rs then map_option snd (blobs_get statsBlobs key)
         else map_of (aggregate_acc.sources acc0) key)"
    unfolding acc_def by (rule aggregate_sources) (rule consistent)
  then have srcs: "map_of (aggregate_acc.sources acc) key
      = (if key \<in> set inputKeys then map_option snd (blobs_get statsBlobs key) else None)"
    by (cases "blobs_get statsBlobs key") (simp_all add: keys acc0_def)
  have dist: "distinct (map fst (aggregate_acc.sources acc))"
    unfolding acc_def by (rule aggregate_sources_distinct) (simp add: acc0_def)
  have c2: "total (ShowSummary.hourlyDownloads
        (asShowSummary (computeShowSummaryAggregate uuid inputKeys outputPeriod statsBlobs)))
      = (\<Sum>(k, summary, etag) \<leftarrow> readSummaries statsBlobs inputKeys.
           total (ShowSummary.hourlyDownloads summary))"
    using tot by (simp add: out rs_def)
  have c3: "dimensionBucket
        (asShowSummary (computeShowSummaryAggregate uuid inputKeys outputPeriod statsBlobs))
        dimension label
      = (\<Sum>(k, summary, etag) \<leftarrow> readSummaries statsBlobs inputKeys.
           dimensionBucket summary dimension label)"
    using bucket by (simp add: out rs_def dimensionBucket_def)
  have c4: "map_of (ShowSummary.sources
        (asShowSummary (computeShowSummaryAggregate uuid inputKeys outputPeriod statsBlobs))) key
      = (if key \<in> set inputKeys then map_option snd (blobs_get statsBlobs key) else None)"
    using srcs by (simp add: out)
  have c5: "distinct (map fst (ShowSummary.sources
        (asShowSummary (computeShowSummaryAggregate uuid inputKeys outputPeriod statsBlobs))))"
    using dist by (simp add: out)
  from skipped c2 c3 c4 c5 show ?thesis
    by blast
qed

theorem aggregate_is_sum_of_read_summaries_witness:
  "list_all (\<lambda>(k, summary, etag). distinctDimensions summary)
     (readSummaries exampleSummaryBlobs [''summary-05'', ''summary-06'', ''summary-07''])
   \<and> total (ShowSummary.hourlyDownloads
        (asShowSummary (computeShowSummaryAggregate exampleShow
           [''summary-05'', ''summary-06'', ''summary-07''] ''2024-03'' exampleSummaryBlobs))) = 8
   \<and> dimensionBucket
        (asShowSummary (computeShowSummaryAggregate exampleShow
           [''summary-05'', ''summary-06'', ''summary-07''] ''2024-03'' exampleSummaryBlobs))
        ''countryCode'' ''US'' = 7
   \<and> map_of (ShowSummary.sources
        (asShowSummary (computeShowSummaryAggregate exampleShow
           [''summary-05'', ''summary-06'', ''summary-07''] ''2024-03'' exampleSummaryBlobs)))
        ''summary-06'' = Some ''etag-b''
   \<and> blobs_get exampleSummaryBlobs ''summary-07'' = None"
proof -
  have rs: "readSummaries exampleSummaryBlobs [''summary-05'', ''summary-06'', ''summary-07'']
      = [(''summary-05'', exampleDay1, ''etag-a''), (''summary-06'', exampleDay2, ''etag-b'')]"
    by (simp add: readSummaries_def List.map_filter_simps exampleSummaryBlobs_def blobs_get_def)
  have wf: "list_all (\<lambda>(k, summary, etag). distinctDimensions summary)
      (readSummaries exampleSummaryBlobs [''summary-05'', ''summary-06'', ''summary-07''])"
    by (simp add: rs distinctDimensions_def exampleDay1_def exampleDay2_def)
  have missing: "blobs_get exampleSummaryBlobs ''summary-07'' = None"
    and found: "blobs_get exampleSummaryBlobs ''summary-06'' = Some (exampleDay2, ''etag-b'')"
    by (simp_all add: exampleSummaryBlobs_def blobs_get_def)
  have t: "(\<Sum>(k, summary, etag) \<leftarrow> readSummaries exampleSummaryBlobs
        [''summary-05'', ''summary-06'', ''summary-07''].
        total (ShowSummary.hourlyDownloads summary)) = 8"
    by (simp add: rs total_def exampleDay1_def exampleDay2_def)
  have b: "(\<Sum>(k, summary, etag) \<leftarrow> readSummaries exampleSummaryBlobs
        [''summary-05'', ''summary-06'', ''summary-07''].
        dimensionBucket summary ''countryCode'' ''US'') = 7"
    by (simp add: rs dimensionBucket_def bucketOf_def countOf_def exampleDay1_def exampleDay2_def)
  note run = aggregate_is_sum_of_read_summaries [OF wf, of exampleShow "''2024-03''"
      "''countryCode''" "''US''" "''summary-06''"]
  from run have c2: "total (ShowSummary.hourlyDownloads
        (asShowSummary (computeShowSummaryAggregate exampleShow
           [''summary-05'', ''summary-06'', ''summary-07''] ''2024-03'' exampleSummaryBlobs)))
      = (\<Sum>(k, summary, etag) \<leftarrow> readSummaries exampleSummaryBlobs
          [''summary-05'', ''summary-06'', ''summary-07''].
          total (ShowSummary.hourlyDownloads summary))"
    by blast
  from run have c3: "dimensionBucket
        (asShowSummary (computeShowSummaryAggregate exampleShow
           [''summary-05'', ''summary-06'', ''summary-07''] ''2024-03'' exampleSummaryBlobs))
        ''countryCode'' ''US''
      = (\<Sum>(k, summary, etag) \<leftarrow> readSummaries exampleSummaryBlobs
          [''summary-05'', ''summary-06'', ''summary-07''].
          dimensionBucket summary ''countryCode'' ''US'')"
    by blast
  from run have c4: "map_of (ShowSummary.sources
        (asShowSummary (computeShowSummaryAggregate exampleShow
           [''summary-05'', ''summary-06'', ''summary-07''] ''2024-03'' exampleSummaryBlobs)))
        ''summary-06''
      = (if ''summary-06'' \<in> set [''summary-05'', ''summary-06'', ''summary-07'']
         then map_option snd (blobs_get exampleSummaryBlobs ''summary-06'') else None)"
    by blast
  show ?thesis
    using wf missing by (simp add: c2 c3 c4 t b found)
qed

section \<open>Claims about the overall merge\<close>

lemma minOpt_Min: "minOpt xs = (if xs = [] then None else Some (Min (set xs)))"
proof (induction xs)
  case Nil
  then show ?case by simp
next
  case (Cons x xs)
  then show ?case
    by (cases "xs = []") simp_all
qed

lemma minOpt_append:
  "minOpt (xs @ ys) =
     (case minOpt xs of
        None \<Rightarrow> minOpt ys
      | Some a \<Rightarrow> Some (case minOpt ys of None \<Rightarrow> a | Some b \<Rightarrow> min a b))"
  by (induction xs) (auto split: option.splits simp: min.assoc)

lemma overallStep_firstHours:
  assumes "overallStep (rt, changed) p = (rt', changed')"
  shows "overallFirstHours (Some rt') = lowerFirstHour (overallFirstHours (Some rt)) p"
    and "\<not> changed' \<Longrightarrow> rt' = rt \<and> \<not> changed"
proof -
  obtain eid ep where p: "p = (eid, ep)"
    by (cases p)
  show "overallFirstHours (Some rt') = lowerFirstHour (overallFirstHours (Some rt)) p"
  proof
    fix e
    show "overallFirstHours (Some rt') e = lowerFirstHour (overallFirstHours (Some rt)) p e"
      using assms
      by (cases "map_of (ShowSummary.episodes rt) eid")
        (auto simp: p overallStep_def overallFirstHours_def lowerFirstHour_def Let_def
          update_conv' min_def split: if_splits)
  qed
  show "\<not> changed' \<Longrightarrow> rt' = rt \<and> \<not> changed"
    using assms by (auto simp: p overallStep_def Let_def split: if_splits)
qed

lemma foldl_overallStep_firstHours:
  assumes "foldl overallStep (rt, changed) es = (rt', changed')"
  shows "overallFirstHours (Some rt') = foldl lowerFirstHour (overallFirstHours (Some rt)) es
     \<and> (\<not> changed' \<longrightarrow> rt' = rt \<and> \<not> changed)"
  using assms
proof (induction es arbitrary: rt changed)
  case Nil
  then show ?case by simp
next
  case (Cons p es)
  obtain rt1 c1 where s: "overallStep (rt, changed) p = (rt1, c1)"
    by (cases "overallStep (rt, changed) p")
  from Cons.prems have rest: "foldl overallStep (rt1, c1) es = (rt', changed')"
    by (simp add: s)
  from Cons.IH [OF rest] overallStep_firstHours [OF s] show ?case
    by auto
qed

lemma mergeIntoOverall_firstHours:
  "overallFirstHours (mergeIntoOverall overall summary)
     = foldl lowerFirstHour (overallFirstHours overall) (ShowSummary.episodes summary)"
proof -
  define rt where "rt = (case overall of
      Some ov \<Rightarrow> ov
    | None \<Rightarrow> \<lparr> ShowSummary.showUuid = ShowSummary.showUuid summary, period = ''overall'',
                 ShowSummary.hourlyDownloads = [], ShowSummary.episodes = [],
                 ShowSummary.sources = [], ShowSummary.dimensionDownloads = None \<rparr>)"
  obtain rt' changed' where
    f: "foldl overallStep (rt, overall = None) (ShowSummary.episodes summary) = (rt', changed')"
    by (cases "foldl overallStep (rt, overall = None) (ShowSummary.episodes summary)")
  have new: "tryComputeNewOverall overall summary = (if changed' then Some rt' else None)"
    using f by (simp add: tryComputeNewOverall_def Let_def rt_def)
  have start: "overallFirstHours (Some rt) = overallFirstHours overall"
    by (cases overall) (auto simp: rt_def overallFirstHours_def)
  from foldl_overallStep_firstHours [OF f]
  have hours: "overallFirstHours (Some rt')
      = foldl lowerFirstHour (overallFirstHours overall) (ShowSummary.episodes summary)"
    and same: "\<not> changed' \<Longrightarrow> rt' = rt \<and> overall \<noteq> None"
    by (simp_all add: start)
  show ?thesis
  proof (cases changed')
    case True
    then show ?thesis
      by (simp add: mergeIntoOverall_def new hours)
  next
    case False
    with same have "rt' = rt" and "overall \<noteq> None"
      by simp_all
    then have ov: "overall = Some rt'"
      by (auto simp: rt_def)
    from False have "mergeIntoOverall overall summary = overall"
      by (simp add: mergeIntoOverall_def new)
    then have "overallFirstHours (mergeIntoOverall overall summary) = overallFirstHours (Some rt')"
      by (simp add: ov)
    with hours show ?thesis
      by simp
  qed
qed

lemma mergeAllIntoOverall_firstHours:
  "overallFirstHours (mergeAllIntoOverall overall summaries)
     = foldl lowerFirstHour (overallFirstHours overall) (concat (map ShowSummary.episodes summaries))"
  unfolding mergeAllIntoOverall_def
proof (induction summaries arbitrary: overall)
  case Nil
  then show ?case by simp
next
  case (Cons s summaries)
  show ?case
    by (simp add: Cons.IH mergeIntoOverall_firstHours)
qed

lemma lowerFirstHour_apply:
  "lowerFirstHour m (k, ep) e
     = (if e = k then Some (case m k of None \<Rightarrow> firstHour ep | Some h \<Rightarrow> min h (firstHour ep))
        else m e)"
  by (simp add: lowerFirstHour_def)

lemma foldl_lowerFirstHour:
  "foldl lowerFirstHour m es eid
     = minOpt ((case m eid of None \<Rightarrow> [] | Some h \<Rightarrow> [h])
               @ map (\<lambda>(k, ep). firstHour ep) (filter (\<lambda>(k, ep). k = eid) es))"
proof (induction es arbitrary: m)
  case Nil
  then show ?case
    by (simp split: option.splits)
next
  case (Cons p es)
  obtain k ep where p: "p = (k, ep)"
    by (cases p)
  let ?rest = "map (\<lambda>(k, ep). firstHour ep) (filter (\<lambda>(k, ep). k = eid) es)"
  have "foldl lowerFirstHour m (p # es) eid = foldl lowerFirstHour (lowerFirstHour m p) es eid"
    by simp
  also have "\<dots> = minOpt ((case lowerFirstHour m p eid of None \<Rightarrow> [] | Some h \<Rightarrow> [h]) @ ?rest)"
    by (rule Cons.IH)
  also have "\<dots> = minOpt ((case m eid of None \<Rightarrow> [] | Some h \<Rightarrow> [h])
      @ map (\<lambda>(k, ep). firstHour ep) (filter (\<lambda>(k, ep). k = eid) (p # es)))"
  proof (cases "k = eid")
    case True
    then show ?thesis
      by (cases "m eid"; cases "minOpt ?rest") (simp_all add: p lowerFirstHour_apply min.assoc)
  next
    case False
    then show ?thesis
      by (simp add: p lowerFirstHour_apply)
  qed
  finally show ?case .
qed

lemma episodeHours_concat:
  "map (\<lambda>(k, ep). firstHour ep)
     (filter (\<lambda>(k, ep). k = eid) (concat (map ShowSummary.episodes summaries)))
   = concat (map (episodeHours eid) summaries)"
  by (induction summaries) (simp_all add: episodeHours_def)

lemma overall_firstHour_minOpt:
  "overallFirstHours (mergeAllIntoOverall overall summaries) eid
     = minOpt (contributedHours eid overall summaries)"
  by (simp add: mergeAllIntoOverall_firstHours foldl_lowerFirstHour episodeHours_concat
      contributedHours_def)

lemma overallEpisodeIds_dom: "overallEpisodeIds overall = dom (overallFirstHours overall)"
proof (cases overall)
  case None
  then show ?thesis
    by (auto simp: overallEpisodeIds_def overallFirstHours_def)
next
  case (Some ov)
  have "e \<in> dom (overallFirstHours (Some ov)) \<longleftrightarrow> e \<in> fst ` set (ShowSummary.episodes ov)" for e
    using map_of_eq_None_iff [of "ShowSummary.episodes ov" e]
    by (cases "map_of (ShowSummary.episodes ov) e") (simp_all add: dom_def overallFirstHours_def)
  then show ?thesis
    by (auto simp: Some overallEpisodeIds_def)
qed

lemma episodeHours_empty:
  "episodeHours eid summary = [] \<longleftrightarrow> eid \<notin> fst ` set (ShowSummary.episodes summary)"
  by (auto simp: episodeHours_def filter_empty_conv image_iff)

lemma contributedHours_empty:
  "contributedHours eid overall summaries = [] \<longleftrightarrow>
     eid \<notin> overallEpisodeIds overall \<union> (\<Union>s \<in> set summaries. fst ` set (ShowSummary.episodes s))"
proof -
  have "overallFirstHours overall eid = None \<longleftrightarrow> eid \<notin> overallEpisodeIds overall"
    by (auto simp: overallEpisodeIds_dom)
  then show ?thesis
    by (auto simp: contributedHours_def episodeHours_empty split: option.splits)
qed

lemma contributedHours_set:
  "set (contributedHours eid overall summaries)
     = set (case overallFirstHours overall eid of None \<Rightarrow> [] | Some h \<Rightarrow> [h])
       \<union> (\<Union>s \<in> set summaries. set (episodeHours eid s))"
  by (simp add: contributedHours_def)

text \<open>
  C3. Fold month summaries, in the order given, into a stored overall (or into none):
  the episodes of the result are those of the prior overall and of all the month
  summaries; the \<open>firstHour\<close> of each is the least, in the lexicographic order, of the
  \<open>firstHour\<close>s contributed for it; and any other order of the same month summaries
  gives the same \<open>firstHour\<close> for every episode.
\<close>

theorem overall_merge_is_union_and_minimum:
  "overallEpisodeIds (mergeAllIntoOverall overall summaries)
     = overallEpisodeIds overall \<union> (\<Union>s \<in> set summaries. fst ` set (ShowSummary.episodes s))
   \<and> overallFirstHours (mergeAllIntoOverall overall summaries) eid
       = (if contributedHours eid overall summaries = [] then None
          else Some (Min (set (contributedHours eid overall summaries))))
   \<and> (mset summaries' = mset summaries \<longrightarrow>
        overallFirstHours (mergeAllIntoOverall overall summaries')
          = overallFirstHours (mergeAllIntoOverall overall summaries))"
proof -
  have hours: "overallFirstHours (mergeAllIntoOverall overall ss) e
      = (if contributedHours e overall ss = [] then None
         else Some (Min (set (contributedHours e overall ss))))" for ss e
    by (simp only: overall_firstHour_minOpt minOpt_Min)
  have ids: "overallEpisodeIds (mergeAllIntoOverall overall summaries)
      = overallEpisodeIds overall \<union> (\<Union>s \<in> set summaries. fst ` set (ShowSummary.episodes s))"
  proof -
    have "e \<in> overallEpisodeIds (mergeAllIntoOverall overall summaries)
        \<longleftrightarrow> contributedHours e overall summaries \<noteq> []" for e
      by (simp add: overallEpisodeIds_dom dom_def hours)
    then show ?thesis
      using contributedHours_empty by blast
  qed
  have perm: "overallFirstHours (mergeAllIntoOverall overall summaries')
      = overallFirstHours (mergeAllIntoOverall overall summaries)"
    if "mset summaries' = mset summaries"
  proof
    fix e
    from that have "set summaries' = set summaries"
      by (rule mset_eq_setD)
    then have same: "set (contributedHours e overall summaries')
        = set (contributedHours e overall summaries)"
      by (simp add: contributedHours_set)
    then have "contributedHours e overall summaries' = [] \<longleftrightarrow> contributedHours e overall summaries = []"
      by (metis set_empty)
    with same show "overallFirstHours (mergeAllIntoOverall overall summaries') e
        = overallFirstHours (mergeAllIntoOverall overall summaries) e"
      by (simp add: hours)
  qed
  from ids hours perm show ?thesis
    by blast
qed

theorem overall_merge_is_union_and_minimum_witness:
  "mset [exampleMonth2, exampleMonth1] = mset [exampleMonth1, exampleMonth2]
   \<and> overallFirstHours
        (mergeAllIntoOverall (Some exampleOverall) [exampleMonth2, exampleMonth1])
       = overallFirstHours
           (mergeAllIntoOverall (Some exampleOverall) [exampleMonth1, exampleMonth2])
   \<and> overallFirstHours
        (mergeAllIntoOverall (Some exampleOverall) [exampleMonth1, exampleMonth2]) ''E2''
       = Some ''2024-01-15T12''
   \<and> overallFirstHours
        (mergeAllIntoOverall (Some exampleOverall) [exampleMonth1, exampleMonth2]) ''E3''
       = Some ''2024-02-20T05''
   \<and> overallEpisodeIds
        (mergeAllIntoOverall (Some exampleOverall) [exampleMonth1, exampleMonth2])
       = {''E2'', ''E3''}"
proof -
  have perm: "mset [exampleMonth2, exampleMonth1] = mset [exampleMonth1, exampleMonth2]"
    by (simp add: add.commute)
  have e2: "contributedHours ''E2'' (Some exampleOverall) [exampleMonth1, exampleMonth2]
      = [''2024-02-10T00'', ''2024-01-15T12'']"
    by (simp add: contributedHours_def overallFirstHours_def episodeHours_def
        exampleOverall_def exampleMonth1_def exampleMonth2_def)
  have e3: "contributedHours ''E3'' (Some exampleOverall) [exampleMonth1, exampleMonth2]
      = [''2024-03-01T00'', ''2024-02-20T05'']"
    by (simp add: contributedHours_def overallFirstHours_def episodeHours_def
        exampleOverall_def exampleMonth1_def exampleMonth2_def)
  have ids: "overallEpisodeIds (Some exampleOverall)
      \<union> (\<Union>s \<in> set [exampleMonth1, exampleMonth2]. fst ` set (ShowSummary.episodes s))
      = {''E2'', ''E3''}"
    by (auto simp: overallEpisodeIds_def exampleOverall_def exampleMonth1_def exampleMonth2_def)
  note run = overall_merge_is_union_and_minimum
    [of "Some exampleOverall" "[exampleMonth1, exampleMonth2]" _ "[exampleMonth2, exampleMonth1]"]
  from run [of "''E2''"] perm have c1: "overallFirstHours
        (mergeAllIntoOverall (Some exampleOverall) [exampleMonth2, exampleMonth1])
      = overallFirstHours
          (mergeAllIntoOverall (Some exampleOverall) [exampleMonth1, exampleMonth2])"
    by blast
  from run [of "''E2''"] have c2: "overallFirstHours
        (mergeAllIntoOverall (Some exampleOverall) [exampleMonth1, exampleMonth2]) ''E2''
      = Some ''2024-01-15T12''"
    by (simp add: e2 min_def)
  from run [of "''E3''"] have c3: "overallFirstHours
        (mergeAllIntoOverall (Some exampleOverall) [exampleMonth1, exampleMonth2]) ''E3''
      = Some ''2024-02-20T05''"
    by (simp add: e3 min_def)
  from run [of "''E2''"] have c4: "overallEpisodeIds
        (mergeAllIntoOverall (Some exampleOverall) [exampleMonth1, exampleMonth2])
      = {''E2'', ''E3''}"
    by (simp only: ids)
  from perm c1 c2 c3 c4 show ?thesis
    by blast
qed

section \<open>The key order of persisted summaries\<close>

text \<open>
  C4 does not hold of the code. \<open>computeSorted\<close> sorts the properties of the object it
  is given and does not descend into their values, so the mappings inside a daily
  or monthly summary are written in insertion order; and the overall summary is
  written as \<open>tryComputeNewOverall\<close> leaves it, a new episode after the episodes it had.
  For the three records of \<open>exampleRows\<close> the persisted daily summary has the hours
  11h, 10h and the countries XX, CA in this order; merging a month with episode E1 into
  an overall with episode E2 gives the episodes E2, E1.
\<close>

theorem persisted_summary_mappings_unsorted:
  "(\<exists>summary timestamps.
      computeShowSummaryForDate exampleImported exampleShow ''2024-03-05''
        (exampleDailyBlobs exampleRows) = Inr (summary, timestamps)
      \<and> saveShowSummary summary []
          = (computeShowSummaryKey exampleShow ''2024-03-05'',
             [(computeShowSummaryKey exampleShow ''2024-03-05'', summary)])
      \<and> getProp summary ''hourlyDownloads''
          = Some (JObject [(''2024-03-05T11'', JNumber 1), (''2024-03-05T10'', JNumber 1)])
      \<and> ShowSummary.dimensionDownloads (asShowSummary summary)
          = Some [(''countryCode'', [(''XX'', 1), (''CA'', 1)]),
                  (''deviceType'', [(''unknown'', 2)]),
                  (''deviceName'', [(''Unknown'', 2)]),
                  (''caRegion'', [(''Unknown'', 1)])]
      \<and> \<not> mappingsSorted (asShowSummary summary))
   \<and> (\<exists>newOverall.
        tryComputeNewOverall (Some exampleOverall) exampleMonth0 = Some newOverall
        \<and> map fst (ShowSummary.episodes newOverall) = [''E2'', ''E1'']
        \<and> \<not> mappingsSorted newOverall)"
proof -
  obtain summary timestamps where
    run: "computeShowSummaryForDate exampleImported exampleShow ''2024-03-05''
      (exampleDailyBlobs exampleRows) = Inr (summary, timestamps)"
    and summary: "summary = JObject
         [(''dimensionDownloads'',
           JObject
            [(''countryCode'', JObject [(''XX'', JNumber 1), (''CA'', JNumber 1)]),
             (''deviceType'', JObject [(''unknown'', JNumber 2)]),
             (''deviceName'', JObject [(''Unknown'', JNumber 2)]),
             (''caRegion'', JObject [(''Unknown'', JNumber 1)])]),
          (''episodes'',
           JObject
            [(''E1'',
              JObject
               [(''hourlyDownloads'', JObject [(''2024-03-05T11'', JNumber 1)]),
                (''firstHour'', JString ''2024-03-05T11'')])]),
          (''hourlyDownloads'',
           JObject [(''2024-03-05T11'', JNumber 1), (''2024-03-05T10'', JNumber 1)]),
          (''period'', JString ''2024-03-05''),
          (''showUuid'', JString exampleShow),
          (''sources'',
           JObject
            [(computeShowDailyKey exampleImported exampleShow ''2024-03-05'',
              JString ''etag1'')])]"
    using exampleRows_result by blast
  have saved: "saveShowSummary summary []
      = (computeShowSummaryKey exampleShow ''2024-03-05'',
         [(computeShowSummaryKey exampleShow ''2024-03-05'', summary)])"
    by (simp add: saveShowSummary_def Let_def summary getProp_def)
  have hourly: "getProp summary ''hourlyDownloads''
      = Some (JObject [(''2024-03-05T11'', JNumber 1), (''2024-03-05T10'', JNumber 1)])"
    by (simp add: summary getProp_def)
  have hours: "ShowSummary.hourlyDownloads (asShowSummary summary)
      = [(''2024-03-05T11'', 1), (''2024-03-05T10'', 1)]"
    by (simp add: summary asShowSummary_def getProp_def asNumberRecord_def)
  have dims: "ShowSummary.dimensionDownloads (asShowSummary summary)
      = Some [(''countryCode'', [(''XX'', 1), (''CA'', 1)]),
              (''deviceType'', [(''unknown'', 2)]),
              (''deviceName'', [(''Unknown'', 2)]),
              (''caRegion'', [(''Unknown'', 1)])]"
    by (simp add: summary asShowSummary_def getProp_def asNumberRecord_def)
  have unsorted: "\<not> mappingsSorted (asShowSummary summary)"
    by (simp add: mappingsSorted_def hours)
  have overall: "tryComputeNewOverall (Some exampleOverall) exampleMonth0
      = Some (exampleOverall\<lparr> ShowSummary.episodes :=
          [(''E2'', \<lparr> EpisodeSummary.hourlyDownloads = [], firstHour = ''2024-02-10T00'' \<rparr>),
           (''E1'', \<lparr> EpisodeSummary.hourlyDownloads = [], firstHour = ''2024-01-02T03'' \<rparr>)] \<rparr>)"
    by (simp add: tryComputeNewOverall_def overallStep_def Let_def exampleOverall_def
        exampleMonth0_def)
  have "\<exists>newOverall.
      tryComputeNewOverall (Some exampleOverall) exampleMonth0 = Some newOverall
      \<and> map fst (ShowSummary.episodes newOverall) = [''E2'', ''E1'']
      \<and> \<not> mappingsSorted newOverall"
    by (simp add: overall mappingsSorted_def)
  with run saved hourly dims unsorted show ?thesis
    by blast
qed

section \<open>Claims about the request parser\<close>

text \<open>
  C8, as the code has it. The parser does not reject a \<open>phases\<close> parameter: it splits
  it at the commas and keeps the recognized tokens, in order, dropping the others
  (\<open>phases\<close> is \<open>undefined\<close> when the parameter is missing or empty). For a job of this
  operation the parser fails only when \<open>show\<close> or \<open>month\<close> is rejected by its check.
\<close>

theorem unrecognized_phases_are_dropped:
  "(isl (tryParseRecomputeShowSummariesForMonthRequest env operationKind targetPath parameters)
      \<longleftrightarrow> targetPath = ''/work/recompute-show-summaries'' \<and> operationKind = ''update''
          \<and> parameters \<noteq> None
          \<and> (isl (check ''show'' (map_of (the parameters) ''show'') (isValidUuid env))
             \<or> isl (check ''month'' (map_of (the parameters) ''month'') (isValidMonth env))))
   \<and> (tryParseRecomputeShowSummariesForMonthRequest env operationKind targetPath parameters
        = Inr (Some req)
      \<longrightarrow> phases req
          = (if truthy (map_of (the parameters) ''phases'')
             then Some (filter isPhase
                          (split_str CHR '','' (the (map_of (the parameters) ''phases''))))
             else None))"
  by (auto simp: tryParseRecomputeShowSummariesForMonthRequest_def Let_def
      split: sum.splits)

text \<open>
  The claim as stated fails: with the unrecognized token \<open>bogus\<close> among the phases the
  parser returns a request, whose phases are the recognized ones.
\<close>

theorem unrecognized_phase_is_not_rejected:
  "tryParseRecomputeShowSummariesForMonthRequest exampleImported ''update''
     ''/work/recompute-show-summaries''
     (Some [(''show'', exampleShow), (''month'', ''2024-03''), (''phases'', ''dailies,bogus'')])
   = Inr (Some \<lparr> RecomputeShowSummariesForMonthRequest.showUuid = exampleShow,
                 month = ''2024-03'', log = False, sequential = False,
                 phases = Some [''dailies''], startDay = None, maxDays = None \<rparr>)"
  by (simp add: tryParseRecomputeShowSummariesForMonthRequest_def Let_def check_def
      exampleImported_def exampleShow_def isLowerHex_def isDigit_def orDefault_def truthy_def
      isPhase_def parseDigits_def)

theorem unrecognized_phases_are_dropped_witness:
  "phases \<lparr> RecomputeShowSummariesForMonthRequest.showUuid = exampleShow,
            month = ''2024-03'', log = False, sequential = False,
            phases = Some [''dailies''], startDay = None, maxDays = None \<rparr>
     = Some (filter isPhase (split_str CHR '','' ''dailies,bogus''))
   \<and> \<not> isl (tryParseRecomputeShowSummariesForMonthRequest exampleImported ''update''
        ''/work/recompute-show-summaries''
        (Some [(''show'', exampleShow), (''month'', ''2024-03''),
               (''phases'', ''dailies,bogus'')]))"
proof -
  have run: "tryParseRecomputeShowSummariesForMonthRequest exampleImported ''update''
     ''/work/recompute-show-summaries''
     (Some [(''show'', exampleShow), (''month'', ''2024-03''), (''phases'', ''dailies,bogus'')])
   = Inr (Some \<lparr> RecomputeShowSummariesForMonthRequest.showUuid = exampleShow,
                 month = ''2024-03'', log = False, sequential = False,
                 phases = Some [''dailies''], startDay = None, maxDays = None \<rparr>)"
    by (simp add: tryParseRecomputeShowSummariesForMonthRequest_def Let_def check_def
        exampleImported_def exampleShow_def isLowerHex_def isDigit_def orDefault_def truthy_def
        isPhase_def parseDigits_def)
  from unrecognized_phases_are_dropped [of exampleImported "''update''"
      "''/work/recompute-show-summaries''"
      "Some [(''show'', exampleShow), (''month'', ''2024-03''), (''phases'', ''dailies,bogus'')]"
      "\<lparr> RecomputeShowSummariesForMonthRequest.showUuid = exampleShow,
         month = ''2024-03'', log = False, sequential = False,
         phases = Some [''dailies''], startDay = None, maxDays = None \<rparr>"]
  have "phases \<lparr> RecomputeShowSummariesForMonthRequest.showUuid = exampleShow,
            month = ''2024-03'', log = False, sequential = False,
            phases = Some [''dailies''], startDay = None, maxDays = None \<rparr>
     = Some (filter isPhase (split_str CHR '','' ''dailies,bogus''))"
    using run by (simp add: truthy_def)
  then show ?thesis
    using run by simp
qed

section \<open>Claims about the shards of the audience\<close>

lemma less_single_char: "line \<noteq> [] \<Longrightarrow> (line < [c]) = (hd line < c)"
  by (cases line) auto

lemma linePartNum4_first: "line \<noteq> [] \<Longrightarrow> linePartNum4 line = firstCharPart4 (hd line)"
  by (simp add: linePartNum4_def firstCharPart4_def less_single_char)

lemma linePartNum8_first: "line \<noteq> [] \<Longrightarrow> linePartNum8 line = firstCharPart8 (hd line)"
  by (simp add: linePartNum8_def firstCharPart8_def less_single_char)

lemma firstCharPart4_range: "firstCharPart4 c \<in> {1..4}"
  by (simp add: firstCharPart4_def)

lemma firstCharPart8_range: "firstCharPart8 c \<in> {1..8}"
  by (simp add: firstCharPart8_def)

lemma partOfLine_range:
  assumes "numParts = 4 \<or> numParts = 8" and "line \<noteq> []"
  shows "partOfLine numParts line \<in> {1..numParts}"
  using assms firstCharPart4_range [of "hd line"] firstCharPart8_range [of "hd line"]
  by (auto simp: partOfLine_def linePartNum4_first linePartNum8_first)

lemma partOfLine_take:
  assumes "line \<noteq> []" and "line' \<noteq> []" and "take 64 line = take 64 line'"
  shows "partOfLine numParts line = partOfLine numParts line'"
proof -
  have "hd (take 64 line) = hd line" and "hd (take 64 line') = hd line'"
    using assms(1,2) by (cases line; simp)+
  with assms(3) have "hd line = hd line'"
    by simp
  with assms(1,2) show ?thesis
    by (simp add: partOfLine_def linePartNum4_first linePartNum8_first)
qed

lemma acceptedOfKey_part:
  assumes "numParts = 4 \<or> numParts = 8"
  shows "acceptedOfKey env statsBlobs (Some (partNum, numParts)) key
     = filter (\<lambda>(date, line). partOfLine numParts line = partNum)
         (acceptedOfKey env statsBlobs None key)"
proof -
  have "filter (acceptsLine (Some (partNum, numParts))) stream
      = filter (\<lambda>line. partOfLine numParts line = partNum) (filter (acceptsLine None) stream)"
    for stream
    using assms by (auto simp: acceptsLine_def partMatches_def partOfLine_def intro: filter_cong)
  then show ?thesis
    by (simp add: acceptedOfKey_def filter_map comp_def split: option.splits sum.splits)
qed

lemma acceptedLines_part:
  assumes "numParts = 4 \<or> numParts = 8"
  shows "acceptedLines env statsBlobs uuid mth (Some (partNum, numParts))
     = filter (\<lambda>(date, line). partOfLine numParts line = partNum)
         (acceptedLines env statsBlobs uuid mth None)"
proof -
  have "acceptedOfKey env statsBlobs (Some (partNum, numParts))
      = (\<lambda>key. filter (\<lambda>(date, line). partOfLine numParts line = partNum)
          (acceptedOfKey env statsBlobs None key))"
    by (rule ext) (rule acceptedOfKey_part [OF assms])
  then show ?thesis
    by (simp add: acceptedLines_def filter_concat comp_def)
qed

lemma acceptedOfKey_nonempty:
  "(date, line) \<in> set (acceptedOfKey env statsBlobs partObj key) \<Longrightarrow> line \<noteq> []"
  by (auto simp: acceptedOfKey_def acceptsLine_def split: option.splits sum.splits)

lemma acceptedLines_nonempty:
  "(date, line) \<in> set (acceptedLines env statsBlobs uuid mth partObj) \<Longrightarrow> line \<noteq> []"
  by (auto simp: acceptedLines_def dest: acceptedOfKey_nonempty)

lemma audienceLines_ids:
  assumes "\<forall>(aid, timestamp) \<in> set timestamps.
      length aid = 64 \<and> CHR 0x0A \<notin> set aid \<and> CHR 0x0A \<notin> set timestamp"
  shows "take 64 ` set (filter (\<lambda>line. line \<noteq> []) (computeLinestream (audienceLines timestamps)))
     = fst ` set timestamps"
proof -
  let ?ls = "map (\<lambda>(aid, timestamp). aid @ CHR 0x09 # timestamp) timestamps"
  have joined: "audienceLines timestamps = concat (map (\<lambda>l. l @ [CHR 0x0A]) ?ls)"
    by (simp add: audienceLines_def comp_def case_prod_unfold)
  have "\<forall>l \<in> set ?ls. CHR 0x0A \<notin> set l"
    using assms by auto
  from computeLinestream_lines [OF this]
  have "computeLinestream (audienceLines timestamps) = ?ls @ [[]]"
    by (simp only: joined)
  then have "filter (\<lambda>line. line \<noteq> []) (computeLinestream (audienceLines timestamps)) = ?ls"
    by (simp add: filter_id_conv case_prod_unfold)
  moreover have "map (take 64) ?ls = map fst timestamps"
    using assms by (induction timestamps) auto
  ultimately show ?thesis
    by (metis list.set_map)
qed

text \<open>What a run that returns has written, when its lines start with a hex id.\<close>

lemma returned_ids:
  assumes ret: "outcome (recomputeAudienceForMonth env statsBlobs putOutcome n uuid mth partObj) = Inr r"
    and hex: "\<forall>(date, line) \<in> set (acceptedLines env statsBlobs uuid mth partObj). hexAudienceId line"
  shows "writtenAudienceIds (recomputeAudienceForMonth env statsBlobs putOutcome n uuid mth partObj)
       (computeAudienceKey uuid mth (partString partObj))
     = acceptedIds env statsBlobs uuid mth partObj"
proof -
  let ?accepted = "acceptedLines env statsBlobs uuid mth partObj"
  from outcome_Inr [OF ret] obtain acc where
    collect: "collectAudience env statsBlobs uuid mth partObj = Inr acc"
    and put: "\<not> isl (fst (putAudienceWithRetries env putOutcome uuid mth partObj acc))"
    by blast
  let ?ts = "audience_acc.audienceTimestamps acc"
  have acc: "acc = foldAccept emptyAudience ?accepted"
    by (rule collectAudience_Inr [OF collect])
  have own: "\<forall>(date, line) \<in> set ?accepted. take 64 line \<notin> set objectPrototypeMembers"
  proof (clarify)
    fix date line
    assume "(date, line) \<in> set ?accepted" and mem: "take 64 line \<in> set objectPrototypeMembers"
    with hex have "length (take 64 line) = 64"
      by (auto simp: hexAudienceId_def)
    with member_length [OF mem] show False
      by simp
  qed
  have ids: "fst ` set ?ts = acceptedIds env statsBlobs uuid mth partObj"
    using foldAccept_ids [OF own, of emptyAudience]
    by (simp add: acc acceptedIds_def emptyAudience_def)
  have entries: "\<forall>(aid, timestamp) \<in> set ?ts.
      length aid = 64 \<and> CHR 0x0A \<notin> set aid \<and> CHR 0x0A \<notin> set timestamp"
  proof (clarify)
    fix aid timestamp
    assume "(aid, timestamp) \<in> set ?ts"
    with foldAccept_entries [of emptyAudience ?accepted] obtain date line where
      line: "(date, line) \<in> set ?accepted"
      and aid: "aid = take 64 line" and t: "timestamp = take 15 (drop 65 line)"
      by (auto simp: acc emptyAudience_def)
    from hex line have len: "length aid = 64"
      by (auto simp: hexAudienceId_def aid)
    from acceptedLines_free [OF line] have free: "CHR 0x0A \<notin> set line" .
    have "set aid \<subseteq> set line"
      unfolding aid by (rule set_take_subset)
    moreover have "set timestamp \<subseteq> set line"
      unfolding t using set_take_subset set_drop_subset by fast
    ultimately show "length aid = 64 \<and> CHR 0x0A \<notin> set aid \<and> CHR 0x0A \<notin> set timestamp"
      using len free by blast
  qed
  have "writtenAudienceIds (recomputeAudienceForMonth env statsBlobs putOutcome n uuid mth partObj)
      (computeAudienceKey uuid mth (partString partObj))
    = take 64 ` set (filter (\<lambda>line. line \<noteq> []) (computeLinestream (audienceLines ?ts)))"
    using put by (simp add: writtenAudienceIds_def written_audience [OF collect])
  also have "\<dots> = fst ` set ?ts"
    by (rule audienceLines_ids [OF entries])
  finally show ?thesis
    by (simp only: ids)
qed

lemma partOfLine_first:
  assumes "line \<noteq> []"
  shows "partOfLine numParts line = firstCharPart numParts (hd line)"
  using assms by (simp add: partOfLine_def firstCharPart_def linePartNum4_first linePartNum8_first)

lemma acceptedIds_part:
  assumes "numParts = 4 \<or> numParts = 8"
  shows "acceptedIds env statsBlobs uuid mth (Some (partNum, numParts))
     = (\<lambda>(date, line). take 64 line)
         ` {x \<in> set (acceptedLines env statsBlobs uuid mth None).
              firstCharPart numParts (hd (snd x)) = partNum}"
proof -
  have "{x \<in> set (acceptedLines env statsBlobs uuid mth None).
          partOfLine numParts (snd x) = partNum}
      = {x \<in> set (acceptedLines env statsBlobs uuid mth None).
          firstCharPart numParts (hd (snd x)) = partNum}"
    using acceptedLines_nonempty partOfLine_first by (metis prod.collapse)
  then show ?thesis
    by (simp add: acceptedIds_def acceptedLines_part [OF assms] case_prod_unfold)
qed

text \<open>
  C6. Take four or eight parts and daily audience files whose non-empty lines each
  start with an audience id of 64 lowercase hex digits, and let the unsharded run and
  the run of every part return, each with its own interleaving of its writes. Then
  the run of a part has written the audience ids of the lines whose first character
  has that part, the unsharded run has written the audience ids of all the lines, the
  ids written by the parts together are the ids written by the unsharded run, and the
  ids written by two different parts are disjoint. The part of a non-empty line is
  the part of its first character by the thresholds (\<open>4\<close>, \<open>8\<close>, \<open>c\<close> for four parts;
  \<open>2\<close>, \<open>4\<close>, \<open>6\<close>, \<open>8\<close>, \<open>a\<close>, \<open>c\<close>, \<open>e\<close> for
  eight), although the code compares the whole line.
\<close>

theorem audience_shards_partition:
  assumes parts: "numParts = 4 \<or> numParts = 8"
    and hex: "\<forall>(date, line) \<in> set (acceptedLines env statsBlobs uuid mth None). hexAudienceId line"
    and whole: "\<not> isl (outcome (recomputeAudienceForMonth env statsBlobs putOutcome (sched None)
                uuid mth None))"
    and shards: "\<forall>partNum \<in> {1..numParts}.
      \<not> isl (outcome (recomputeAudienceForMonth env statsBlobs putOutcome
                (sched (Some (partNum, numParts))) uuid mth (Some (partNum, numParts))))"
  shows "(\<forall>partNum \<in> {1..numParts}.
            runAudienceIds env statsBlobs putOutcome (sched (Some (partNum, numParts))) uuid mth
              (Some (partNum, numParts))
            = (\<lambda>(date, line). take 64 line)
                ` {x \<in> set (acceptedLines env statsBlobs uuid mth None).
                     firstCharPart numParts (hd (snd x)) = partNum})
     \<and> runAudienceIds env statsBlobs putOutcome (sched None) uuid mth None
         = (\<lambda>(date, line). take 64 line) ` set (acceptedLines env statsBlobs uuid mth None)
     \<and> (\<Union>partNum \<in> {1..numParts}.
           runAudienceIds env statsBlobs putOutcome (sched (Some (partNum, numParts))) uuid mth
             (Some (partNum, numParts)))
         = runAudienceIds env statsBlobs putOutcome (sched None) uuid mth None
     \<and> (\<forall>p \<in> {1..numParts}. \<forall>q \<in> {1..numParts}. p \<noteq> q \<longrightarrow>
           runAudienceIds env statsBlobs putOutcome (sched (Some (p, numParts))) uuid mth
             (Some (p, numParts))
           \<inter> runAudienceIds env statsBlobs putOutcome (sched (Some (q, numParts))) uuid mth
               (Some (q, numParts)) = {})
     \<and> (line \<noteq> [] \<longrightarrow>
           linePartNum4 line = firstCharPart4 (hd line)
           \<and> linePartNum8 line = firstCharPart8 (hd line))"
proof -
  let ?all = "acceptedLines env statsBlobs uuid mth None"
  let ?ids = "\<lambda>partObj. runAudienceIds env statsBlobs putOutcome (sched partObj) uuid mth partObj"
  have ids: "?ids (Some (partNum, numParts))
      = (\<lambda>(date, line). take 64 line) ` {x \<in> set ?all. firstCharPart numParts (hd (snd x)) = partNum}"
    if "partNum \<in> {1..numParts}" for partNum
  proof -
    from shards that obtain r where ret:
      "outcome (recomputeAudienceForMonth env statsBlobs putOutcome
         (sched (Some (partNum, numParts))) uuid mth (Some (partNum, numParts))) = Inr r"
      by (metis isl_def sum.exhaust_sel)
    have "\<forall>(date, line) \<in> set (acceptedLines env statsBlobs uuid mth (Some (partNum, numParts))).
        hexAudienceId line"
      using hex by (auto simp: acceptedLines_part [OF parts])
    from returned_ids [OF ret this] show ?thesis
      by (simp add: runAudienceIds_def acceptedIds_part [OF parts])
  qed
  have all: "?ids None = (\<lambda>(date, line). take 64 line) ` set ?all"
  proof -
    from whole obtain r where ret:
      "outcome (recomputeAudienceForMonth env statsBlobs putOutcome (sched None) uuid mth None) = Inr r"
      by (metis isl_def sum.exhaust_sel)
    from returned_ids [OF ret hex] show ?thesis
      by (simp add: runAudienceIds_def acceptedIds_def)
  qed
  have nonempty: "snd x \<noteq> []" if "x \<in> set ?all" for x
    using that acceptedLines_nonempty [of "fst x" "snd x"] by simp
  have range: "firstCharPart numParts (hd (snd x)) \<in> {1..numParts}" if "x \<in> set ?all" for x
    using partOfLine_range [OF parts nonempty [OF that]] partOfLine_first [OF nonempty [OF that]]
    by simp
  have union: "(\<Union>partNum \<in> {1..numParts}. ?ids (Some (partNum, numParts))) = ?ids None"
  proof
    show "(\<Union>partNum \<in> {1..numParts}. ?ids (Some (partNum, numParts))) \<subseteq> ?ids None"
      using ids unfolding all by blast
    show "?ids None \<subseteq> (\<Union>partNum \<in> {1..numParts}. ?ids (Some (partNum, numParts)))"
    proof
      fix aid assume "aid \<in> ?ids None"
      then obtain x where x: "x \<in> set ?all" and aid: "aid = take 64 (snd x)"
        unfolding all by (auto simp: case_prod_unfold)
      let ?p = "firstCharPart numParts (hd (snd x))"
      from range [OF x] have p: "?p \<in> {1..numParts}" .
      from x aid have "aid \<in> ?ids (Some (?p, numParts))"
        unfolding ids [OF p] by (auto simp: case_prod_unfold)
      with p show "aid \<in> (\<Union>partNum \<in> {1..numParts}. ?ids (Some (partNum, numParts)))"
        by blast
    qed
  qed
  have disjoint: "?ids (Some (p, numParts)) \<inter> ?ids (Some (q, numParts)) = {}"
    if p: "p \<in> {1..numParts}" and q: "q \<in> {1..numParts}" and "p \<noteq> q" for p q
  proof (rule ccontr)
    assume "?ids (Some (p, numParts)) \<inter> ?ids (Some (q, numParts)) \<noteq> {}"
    then obtain x y where x: "x \<in> set ?all" "firstCharPart numParts (hd (snd x)) = p"
      and y: "y \<in> set ?all" "firstCharPart numParts (hd (snd y)) = q"
      and same: "take 64 (snd x) = take 64 (snd y)"
      unfolding ids [OF p] ids [OF q] by (auto simp: case_prod_unfold)
    from partOfLine_take [OF nonempty [OF x(1)] nonempty [OF y(1)] same, of numParts]
      partOfLine_first [OF nonempty [OF x(1)], of numParts]
      partOfLine_first [OF nonempty [OF y(1)], of numParts] x(2) y(2) that(3)
    show False
      by simp
  qed
  have first: "linePartNum4 line = firstCharPart4 (hd line)
      \<and> linePartNum8 line = firstCharPart8 (hd line)" if "line \<noteq> []"
    using that by (simp add: linePartNum4_first linePartNum8_first)
  from ids all union disjoint first show ?thesis
    by blast
qed

lemma audienceLine_hex: "audienceLine line \<Longrightarrow> hexAudienceId line"
  by (simp add: audienceLine_def hexAudienceId_def)

lemma wellformed_shard_returns:
  assumes parts: "numParts = 4 \<or> numParts = 8"
    and whole: "collectAudience env statsBlobs uuid mth None = Inr acc"
    and lines: "list_all (\<lambda>(date, line). audienceLine line \<and> ascii line)
      (acceptedLines env statsBlobs uuid mth None)"
    and puts: "\<forall>key. putOutcome key 0 = None"
  shows "\<not> isl (outcome (recomputeAudienceForMonth env statsBlobs putOutcome n uuid mth
      (Some (partNum, numParts))))"
proof -
  from whole processAudienceKeys_supported [OF parts] obtain shard where
    collect: "collectAudience env statsBlobs uuid mth (Some (partNum, numParts)) = Inr shard"
    unfolding collectAudience_def by blast
  have a: "list_all (\<lambda>(date, line). audienceLine line)
      (acceptedLines env statsBlobs uuid mth (Some (partNum, numParts)))"
    and b: "list_all (\<lambda>(date, line). ascii line)
      (acceptedLines env statsBlobs uuid mth (Some (partNum, numParts)))"
    using lines by (auto simp: acceptedLines_part [OF parts] list_all_iff)
  from wellformed_run_returns [OF collect a b] puts show ?thesis
    by simp
qed

theorem audience_shards_partition_witness:
  "runAudienceIds exampleImported exampleAudienceBlobs (\<lambda>key n. None) 0 exampleShow ''2024-03''
      (Some (1, 4))
     = {''0a00000000000000000000000000000000000000000000000000000000000001''}
   \<and> runAudienceIds exampleImported exampleAudienceBlobs (\<lambda>key n. None) 0 exampleShow ''2024-03''
      (Some (2, 4))
     = {''4b00000000000000000000000000000000000000000000000000000000000002''}
   \<and> runAudienceIds exampleImported exampleAudienceBlobs (\<lambda>key n. None) 0 exampleShow ''2024-03''
      (Some (3, 4))
     = {}
   \<and> runAudienceIds exampleImported exampleAudienceBlobs (\<lambda>key n. None) 0 exampleShow ''2024-03''
      (Some (4, 4))
     = {''cf00000000000000000000000000000000000000000000000000000000000003''}
   \<and> runAudienceIds exampleImported exampleAudienceBlobs (\<lambda>key n. None) 0 exampleShow ''2024-03''
      None
     = {''0a00000000000000000000000000000000000000000000000000000000000001'',
        ''4b00000000000000000000000000000000000000000000000000000000000002'',
        ''cf00000000000000000000000000000000000000000000000000000000000003''}
   \<and> \<not> isl (outcome (recomputeAudienceForMonth exampleImported exampleAudienceBlobs
        (\<lambda>key n. None) 0 exampleShow ''2024-03'' None))"
proof -
  let ?all = "acceptedLines exampleImported exampleAudienceBlobs exampleShow ''2024-03'' None"
  have lines: "list_all (\<lambda>(date, line). audienceLine line \<and> ascii line) ?all"
    by (simp add: exampleAudience_accepted exampleAudienceLines_def audienceLine_def
        isLowerHex_def isDigit_def ascii_def)
  then have hex: "\<forall>(date, line) \<in> set ?all. hexAudienceId line"
    by (auto simp: list_all_iff dest: audienceLine_hex)
  from lines have a: "list_all (\<lambda>(date, line). audienceLine line) ?all"
    and b: "list_all (\<lambda>(date, line). ascii line) ?all"
    by (auto simp: list_all_iff)
  from wellformed_run_returns [OF exampleAudience_collect a b, of "\<lambda>key n. None" 0]
  have whole: "\<not> isl (outcome (recomputeAudienceForMonth exampleImported exampleAudienceBlobs
      (\<lambda>key n. None) 0 exampleShow ''2024-03'' None))"
    by simp
  have shards: "\<forall>partNum \<in> {1..4}.
      \<not> isl (outcome (recomputeAudienceForMonth exampleImported exampleAudienceBlobs
        (\<lambda>key n. None) 0 exampleShow ''2024-03'' (Some (partNum, 4))))"
    using wellformed_shard_returns [OF _ exampleAudience_collect lines, of 4 "\<lambda>key n. None"]
    by simp
  have sets: "{x \<in> set ?all. firstCharPart 4 (hd (snd x)) = p}
      = set (filter (\<lambda>x. firstCharPart 4 (hd (snd x)) = p) ?all)" for p
    by simp
  note inst = audience_shards_partition [of 4 exampleImported exampleAudienceBlobs exampleShow
      "''2024-03''" "\<lambda>key n. None" "\<lambda>partObj. 0", OF _ hex whole shards]
  from inst have parts: "\<forall>partNum \<in> {1..4}.
      runAudienceIds exampleImported exampleAudienceBlobs (\<lambda>key n. None) 0 exampleShow ''2024-03''
        (Some (partNum, 4))
      = (\<lambda>(date, line). take 64 line) ` set (filter (\<lambda>x. firstCharPart 4 (hd (snd x)) = partNum) ?all)"
    and all: "runAudienceIds exampleImported exampleAudienceBlobs (\<lambda>key n. None) 0 exampleShow
        ''2024-03'' None
      = (\<lambda>(date, line). take 64 line) ` set ?all"
    unfolding sets by simp_all
  have p1: "(1::nat) \<in> {1..4}" and p2: "(2::nat) \<in> {1..4}" and p3: "(3::nat) \<in> {1..4}"
    and p4: "(4::nat) \<in> {1..4}"
    by simp_all
  from parts [rule_format, OF p1] parts [rule_format, OF p2] parts [rule_format, OF p3]
    parts [rule_format, OF p4] all whole
  show ?thesis
    by (auto simp: exampleAudience_accepted exampleAudienceLines_def firstCharPart_def
        firstCharPart4_def)
qed

section \<open>Claims about the monthly audience blob\<close>

text \<open>
  C7, as the code has it. Let every line that the run accepts be an audience id of 64
  lowercase hex digits, a tab and a timestamp of 15 characters. Then a run that
  returns, returns a \<open>contentLength\<close> of 81 times its \<open>audience\<close>, which is the number of
  distinct audience ids of the accepted lines; it has written, as the audience blob,
  the accepted lines that are the first with their audience id, in order, each
  followed by a line feed: as many lines as \<open>audience\<close>, and a text of \<open>contentLength\<close>
  bytes. An audience blob is written only with this text and this number of bytes,
  also by a run that does not return. And the run does return when the loop succeeds,
  the lines have no code unit above 127 and the store accepts both writes.
\<close>

theorem audience_blob_has_declared_length:
  assumes lines: "list_all (\<lambda>(date, line). audienceLine line)
      (acceptedLines env statsBlobs uuid mth partObj)"
  shows "(outcome (recomputeAudienceForMonth env statsBlobs putOutcome n uuid mth partObj) = Inr res
      \<longrightarrow> contentLength res = (64 + 1 + 15 + 1) * audience res
        \<and> audience res = card (acceptedIds env statsBlobs uuid mth partObj)
        \<and> map_of (writtenBlobs (recomputeAudienceForMonth env statsBlobs putOutcome n uuid mth partObj))
            (computeAudienceKey uuid mth (partString partObj))
            = Some (Text (concat (map (\<lambda>line. line @ [CHR 0x0A])
                (firstSeen {} (acceptedLines env statsBlobs uuid mth partObj)))))
        \<and> length (firstSeen {} (acceptedLines env statsBlobs uuid mth partObj)) = audience res
        \<and> length (encode (concat (map (\<lambda>line. line @ [CHR 0x0A])
              (firstSeen {} (acceptedLines env statsBlobs uuid mth partObj)))))
            = contentLength res)
   \<and> (map_of (writtenBlobs (recomputeAudienceForMonth env statsBlobs putOutcome n uuid mth partObj))
          (computeAudienceKey uuid mth (partString partObj)) = Some b
      \<longrightarrow> b = Text (concat (map (\<lambda>line. line @ [CHR 0x0A])
                (firstSeen {} (acceptedLines env statsBlobs uuid mth partObj))))
        \<and> length (encode (concat (map (\<lambda>line. line @ [CHR 0x0A])
              (firstSeen {} (acceptedLines env statsBlobs uuid mth partObj)))))
            = 81 * card (acceptedIds env statsBlobs uuid mth partObj))
   \<and> (collectAudience env statsBlobs uuid mth partObj = Inr acc
        \<and> list_all (\<lambda>(date, line). ascii line) (acceptedLines env statsBlobs uuid mth partObj)
        \<and> putOutcome (computeAudienceKey uuid mth (partString partObj)) 0 = None
        \<and> putOutcome (computeAudienceSummaryKey uuid mth (partString partObj)) 0 = None
      \<longrightarrow> (\<exists>r. outcome (recomputeAudienceForMonth env statsBlobs putOutcome n uuid mth partObj)
                  = Inr r))"
proof -
  let ?run = "recomputeAudienceForMonth env statsBlobs putOutcome n uuid mth partObj"
  let ?accepted = "acceptedLines env statsBlobs uuid mth partObj"
  let ?key = "computeAudienceKey uuid mth (partString partObj)"
  let ?blob = "concat (map (\<lambda>line. line @ [CHR 0x0A]) (firstSeen {} ?accepted))"
  have distinct: "length (firstSeen {} ?accepted) = card (acceptedIds env statsBlobs uuid mth partObj)"
    by (simp add: firstSeen_card acceptedIds_def)
  have put: "map_of (writtenBlobs ?run) ?key = Some (Text ?blob)
      \<and> length (encode ?blob) = 81 * card (acceptedIds env statsBlobs uuid mth partObj)
      \<and> audience_acc.count a = card (acceptedIds env statsBlobs uuid mth partObj)"
    if collect: "collectAudience env statsBlobs uuid mth partObj = Inr a"
      and ok: "\<not> isl (fst (putAudienceWithRetries env putOutcome uuid mth partObj a))" for a
  proof -
    have cnt: "audience_acc.count a = card (acceptedIds env statsBlobs uuid mth partObj)"
      using collect_wellformed(2) [OF collect lines] distinct by simp
    have blob: "audienceLines (audience_acc.audienceTimestamps a) = ?blob"
      by (rule collect_wellformed(3) [OF collect lines])
    have "map_of (writtenBlobs ?run) ?key = Some (Text ?blob)"
      using ok by (simp add: written_audience [OF collect] blob)
    moreover have "length (encode ?blob) = 81 * card (acceptedIds env statsBlobs uuid mth partObj)"
      using put_succeeded_length [OF ok] by (simp add: blob cnt)
    ultimately show ?thesis
      using cnt by blast
  qed
  have returned: "contentLength res = (64 + 1 + 15 + 1) * audience res
      \<and> audience res = card (acceptedIds env statsBlobs uuid mth partObj)
      \<and> map_of (writtenBlobs ?run) ?key = Some (Text ?blob)
      \<and> length (firstSeen {} ?accepted) = audience res
      \<and> length (encode ?blob) = contentLength res"
    if ret: "outcome ?run = Inr res"
  proof -
    from outcome_Inr [OF ret] obtain a where
      collect: "collectAudience env statsBlobs uuid mth partObj = Inr a"
      and ok: "\<not> isl (fst (putAudienceWithRetries env putOutcome uuid mth partObj a))"
      and res: "res = \<lparr> audience = audience_acc.count a,
          contentLength = 81 * audience_acc.count a, part = partString partObj \<rparr>"
      by blast
    from put [OF collect ok] distinct res show ?thesis
      by simp
  qed
  have blob: "b = Text ?blob
      \<and> length (encode ?blob) = 81 * card (acceptedIds env statsBlobs uuid mth partObj)"
    if there: "map_of (writtenBlobs ?run) ?key = Some b"
  proof (cases "collectAudience env statsBlobs uuid mth partObj")
    case (Inl e)
    with there show ?thesis
      by (simp add: recomputeAudienceForMonth_failed writtenBlobs_def)
  next
    case (Inr a)
    from there have ok: "\<not> isl (fst (putAudienceWithRetries env putOutcome uuid mth partObj a))"
      by (auto simp: written_audience [OF Inr] split: if_splits)
    from put [OF Inr ok] there show ?thesis
      by simp
  qed
  have returns: "\<exists>r. outcome ?run = Inr r"
    if "collectAudience env statsBlobs uuid mth partObj = Inr acc"
      and "list_all (\<lambda>(date, line). ascii line) ?accepted"
      and "putOutcome ?key 0 = None"
      and "putOutcome (computeAudienceSummaryKey uuid mth (partString partObj)) 0 = None"
    using wellformed_run_returns [where putOutcome = putOutcome, OF that(1) lines that(2)] that(3,4)
    by blast
  from returned blob returns show ?thesis
    by blast
qed

theorem audience_blob_has_declared_length_witness:
  "outcome (recomputeAudienceForMonth exampleImported exampleAudienceBlobs putsSucceed 0
      exampleShow ''2024-03'' None)
     = Inr \<lparr> audience = 3, contentLength = 243, part = None \<rparr>
   \<and> list_all (\<lambda>(date, line). audienceLine line)
       (acceptedLines exampleImported exampleAudienceBlobs exampleShow ''2024-03'' None)
   \<and> card (acceptedIds exampleImported exampleAudienceBlobs exampleShow ''2024-03'' None) = 3
   \<and> map_of (writtenBlobs (recomputeAudienceForMonth exampleImported exampleAudienceBlobs
        putsSucceed 0 exampleShow ''2024-03'' None))
        (computeAudienceKey exampleShow ''2024-03'' None)
       = Some (Text (concat (map (\<lambda>line. line @ [CHR 0x0A]) (take 3 exampleAudienceLines))))
   \<and> length (encode (concat (map (\<lambda>line. line @ [CHR 0x0A]) (take 3 exampleAudienceLines))))
       = 243"
proof -
  let ?run = "recomputeAudienceForMonth exampleImported exampleAudienceBlobs putsSucceed 0
      exampleShow ''2024-03'' None"
  let ?res = "\<lparr> audience = 3, contentLength = 243, part = None \<rparr>"
  let ?accepted = "acceptedLines exampleImported exampleAudienceBlobs exampleShow ''2024-03'' None"
  note lines = exampleAudience_wellformed
  have plain: "list_all (\<lambda>(date, line). ascii line) ?accepted"
    by (simp add: exampleAudience_accepted exampleAudienceLines_def ascii_def)
  from wellformed_run_returns [OF exampleAudience_collect lines plain, of putsSucceed 0]
  have ret: "outcome ?run = Inr ?res"
    by (simp add: putsSucceed_def partString_def)
  from audience_blob_has_declared_length [OF lines, of putsSucceed 0 ?res] ret
  have a: "audience ?res = card (acceptedIds exampleImported exampleAudienceBlobs exampleShow
        ''2024-03'' None)"
    and b: "map_of (writtenBlobs ?run) (computeAudienceKey exampleShow ''2024-03'' (partString None))
        = Some (Text (concat (map (\<lambda>line. line @ [CHR 0x0A]) (firstSeen {} ?accepted))))"
    and c: "length (encode (concat (map (\<lambda>line. line @ [CHR 0x0A]) (firstSeen {} ?accepted))))
        = contentLength ?res"
    by blast+
  from a have c1: "card (acceptedIds exampleImported exampleAudienceBlobs exampleShow
      ''2024-03'' None) = 3"
    by simp
  from b have c2: "map_of (writtenBlobs ?run) (computeAudienceKey exampleShow ''2024-03'' None)
      = Some (Text (concat (map (\<lambda>line. line @ [CHR 0x0A]) (take 3 exampleAudienceLines))))"
    by (simp add: exampleAudience_firstSeen partString_def)
  from c have c3: "length (encode (concat (map (\<lambda>line. line @ [CHR 0x0A])
      (take 3 exampleAudienceLines)))) = 243"
    by (simp add: exampleAudience_firstSeen)
  from ret lines c1 c2 c3 show ?thesis
    by blast
qed

text \<open>
  The claim as stated fails: it has the first half hold of every run. A daily file
  with the one line \<open>constructor\<close> has one accepted audience id, but the lookup of line
  37 finds the member of \<open>Object.prototype\<close> of that name, so that the id is neither
  counted nor stored: the run returns an \<open>audience\<close> and a \<open>contentLength\<close> of 0.
\<close>

theorem prototype_member_id_is_not_counted:
  "outcome (recomputeAudienceForMonth exampleImported prototypeBlobs putsSucceed 0
      exampleShow ''2024-03'' None)
     = Inr \<lparr> audience = 0, contentLength = 0, part = None \<rparr>
   \<and> acceptedIds exampleImported prototypeBlobs exampleShow ''2024-03'' None = {''constructor''}
   \<and> card (acceptedIds exampleImported prototypeBlobs exampleShow ''2024-03'' None) = 1"
proof -
  have listing: "blobs_list prototypeBlobs (computeAudienceKeyPrefix exampleShow ''2024-03'')
      = [computeAudienceKey exampleShow ''2024-03-05'' None]"
    by (simp add: blobs_list_def prototypeBlobs_def computeAudienceKeyPrefix_def
        computeAudienceKey_def exampleShow_def)
  have get: "blobs_get prototypeBlobs (computeAudienceKey exampleShow ''2024-03-05'' None)
      = Some ''constructor''"
    by (simp add: blobs_get_def prototypeBlobs_def)
  have stream: "computeLinestream ''constructor'' = [''constructor'']"
    by (simp add: computeLinestream_def)
  have collect: "collectAudience exampleImported prototypeBlobs exampleShow ''2024-03'' None
      = Inr \<lparr> audience_acc.audienceTimestamps = [], dailyFoundAudience = [(''2024-03-05'', 1)],
              audience_acc.count = 0 \<rparr>"
    by (simp add: collectAudience_def listing processAudienceKey_def get exampleKey_unpack
        exampleDate_valid stream processLine_def acceptLine_def Let_def truthyProperty_def
        objectPrototypeMembers_def increment_def incrementBy_def)
  have put: "putAudienceWithRetries exampleImported putsSucceed exampleShow ''2024-03'' None
      \<lparr> audience_acc.audienceTimestamps = [], dailyFoundAudience = [(''2024-03-05'', 1)],
        audience_acc.count = 0 \<rparr> = (Inr (), 1)"
    by (simp add: putAudienceWithRetries_def executeWithRetries_def numeral_2_eq_2
        putAudience_def audienceChunks_def putsSucceed_def)
  have ret: "outcome (recomputeAudienceForMonth exampleImported prototypeBlobs putsSucceed 0
      exampleShow ''2024-03'' None) = Inr \<lparr> audience = 0, contentLength = 0, part = None \<rparr>"
    using outcome_returns [OF collect, of putsSucceed 0]
    by (simp add: put putsSucceed_def partString_def)
  have ids: "acceptedIds exampleImported prototypeBlobs exampleShow ''2024-03'' None
      = {''constructor''}"
    by (simp add: acceptedIds_def acceptedLines_def listing acceptedOfKey_def get
        exampleKey_unpack stream acceptsLine_def partMatches_def)
  from ret ids show ?thesis
    by simp
qed

section \<open>Claims about the retries of the audience put\<close>

lemma retryFrom_succeeds:
  assumes "\<forall>i<k. \<exists>e. fn (attempt + i) = Inl e \<and> isRetryable e"
    and "fn (attempt + k) = Inr v" and "k \<le> retriesLeft"
  shows "retryFrom fn isRetryable retriesLeft attempt = (Inr v, Suc (attempt + k))"
  using assms
proof (induction k arbitrary: retriesLeft attempt)
  case 0
  then show ?case
    by (cases retriesLeft) simp_all
next
  case (Suc k)
  from Suc.prems(3) obtain n where n: "retriesLeft = Suc n" and kn: "k \<le> n"
    by (cases retriesLeft) simp_all
  from Suc.prems(1) obtain e where e: "fn attempt = Inl e" "isRetryable e"
    by force
  have later: "\<forall>i<k. \<exists>e. fn (Suc attempt + i) = Inl e \<and> isRetryable e"
    using Suc.prems(1) by (metis Suc_less_eq add_Suc_shift)
  have "fn (Suc attempt + k) = Inr v"
    using Suc.prems(2) by simp
  from Suc.IH [OF later this kn] show ?case
    by (simp add: n e)
qed

lemma retryFrom_exhausted:
  assumes "\<forall>i\<le>retriesLeft. \<exists>e. fn (attempt + i) = Inl e \<and> isRetryable e"
  shows "retryFrom fn isRetryable retriesLeft attempt
     = (fn (attempt + retriesLeft), Suc (attempt + retriesLeft))"
  using assms
proof (induction retriesLeft arbitrary: attempt)
  case 0
  then show ?case by simp
next
  case (Suc n)
  from Suc.prems obtain e where e: "fn attempt = Inl e" "isRetryable e"
    by force
  have "\<forall>i\<le>n. \<exists>e. fn (Suc attempt + i) = Inl e \<and> isRetryable e"
    using Suc.prems by (metis Suc_le_mono add_Suc_shift)
  from Suc.IH [OF this] show ?case
    by (simp add: e)
qed

lemma putsTo_collected:
  assumes "collectAudience env statsBlobs uuid mth partObj = Inr acc"
  shows "putsTo (computeAudienceKey uuid mth (partString partObj))
       (recomputeAudienceForMonth env statsBlobs putOutcome n uuid mth partObj)
     = snd (putAudienceWithRetries env putOutcome uuid mth partObj acc)"
    and "putsTo (computeAudienceSummaryKey uuid mth (partString partObj))
       (recomputeAudienceForMonth env statsBlobs putOutcome n uuid mth partObj) = 1"
    and "length (puts (recomputeAudienceForMonth env statsBlobs putOutcome n uuid mth partObj))
     = snd (putAudienceWithRetries env putOutcome uuid mth partObj acc) + 1"
proof -
  let ?calls = "audienceCalls env putOutcome uuid mth partObj acc"
  let ?s = "summaryCall putOutcome uuid mth partObj acc"
  let ?key = "computeAudienceKey uuid mth (partString partObj)"
  let ?skey = "computeAudienceSummaryKey uuid mth (partString partObj)"
  have differ: "?key \<noteq> ?skey"
    by (rule audience_key_not_summary_key)
  have keys: "\<forall>c \<in> set ?calls. callKey c = ?key"
    by (auto simp: audienceCalls_def)
  have len: "length ?calls = snd (putAudienceWithRetries env putOutcome uuid mth partObj acc)"
    by (simp add: audienceCalls_def)
  have all: "filter (\<lambda>c. callKey c = ?key) xs = xs" if "set xs \<subseteq> set ?calls" for xs
    using that keys by (auto simp: filter_id_conv)
  have none: "filter (\<lambda>c. callKey c = ?skey) xs = []" if "set xs \<subseteq> set ?calls" for xs
    using that keys differ by (auto simp: filter_empty_conv)
  have t: "set (take n ?calls) \<subseteq> set ?calls" and d: "set (drop n ?calls) \<subseteq> set ?calls"
    by (simp_all add: set_take_subset set_drop_subset)
  have split: "length (take n ?calls) + length (drop n ?calls) = length ?calls"
    by simp
  show "putsTo ?key (recomputeAudienceForMonth env statsBlobs putOutcome n uuid mth partObj)
      = snd (putAudienceWithRetries env putOutcome uuid mth partObj acc)"
    using differ split
    by (simp add: putsTo_def recomputeAudienceForMonth_collected [OF assms] all [OF t] all [OF d]
        summaryCall_def len del: length_take length_drop)
  show "putsTo ?skey (recomputeAudienceForMonth env statsBlobs putOutcome n uuid mth partObj) = 1"
    by (simp add: putsTo_def recomputeAudienceForMonth_collected [OF assms] none [OF t]
        none [OF d] summaryCall_def)
  show "length (puts (recomputeAudienceForMonth env statsBlobs putOutcome n uuid mth partObj))
      = snd (putAudienceWithRetries env putOutcome uuid mth partObj acc) + 1"
    using split by (simp add: recomputeAudienceForMonth_collected [OF assms] len
        del: length_take length_drop)
qed

text \<open>
  C9, as the code has it. Take a run whose loop has succeeded, and any interleaving
  of its two writes. If \<open>putAudience\<close> fails with retryable errors at most twice and
  then succeeds, it is called once more than it has failed, and the run returns when
  the put of the summary succeeds; when that put fails, the run fails with its
  error, wrapped. If \<open>putAudience\<close> fails with retryable errors three times, it is
  called three times, and the run fails: with the error of the third call when the
  put of the summary succeeds or settles after the third call, and with the wrapped
  error of the summary when that put fails before. The summary is put once,
  whatever the store answers to either write, and the run makes no other call of
  \<open>put\<close>.
\<close>

theorem audience_put_is_retried_twice:
  assumes collect: "collectAudience env statsBlobs uuid mth partObj = Inr acc"
  shows "(failures \<le> 2
        \<and> (\<forall>i<failures. \<exists>e. audienceAttempt putOutcome uuid mth partObj acc i = Inl e
               \<and> isRetryableErrorFromR2 env e)
        \<and> audienceAttempt putOutcome uuid mth partObj acc failures = Inr ()
      \<longrightarrow> putsTo (computeAudienceKey uuid mth (partString partObj))
            (recomputeAudienceForMonth env statsBlobs putOutcome n uuid mth partObj)
            = failures + 1
        \<and> (putOutcome (computeAudienceSummaryKey uuid mth (partString partObj)) 0 = None
           \<longrightarrow> outcome (recomputeAudienceForMonth env statsBlobs putOutcome n uuid mth partObj)
               = Inr \<lparr> audience = audience_acc.count acc,
                       contentLength = 81 * audience_acc.count acc,
                       part = partString partObj \<rparr>)
        \<and> (\<forall>e'. putOutcome (computeAudienceSummaryKey uuid mth (partString partObj)) 0 = Some e'
           \<longrightarrow> outcome (recomputeAudienceForMonth env statsBlobs putOutcome n uuid mth partObj)
               = Inl (ErrorPuttingAudienceSummary mth uuid e')))
     \<and> ((\<forall>i<3. \<exists>e. audienceAttempt putOutcome uuid mth partObj acc i = Inl e
               \<and> isRetryableErrorFromR2 env e)
      \<longrightarrow> putsTo (computeAudienceKey uuid mth (partString partObj))
            (recomputeAudienceForMonth env statsBlobs putOutcome n uuid mth partObj) = 3
        \<and> (\<exists>e. audienceAttempt putOutcome uuid mth partObj acc 2 = Inl e
               \<and> isRetryableErrorFromR2 env e
               \<and> (putOutcome (computeAudienceSummaryKey uuid mth (partString partObj)) 0 = None
                    \<or> 3 \<le> n
                  \<longrightarrow> outcome (recomputeAudienceForMonth env statsBlobs putOutcome n uuid mth
                        partObj) = Inl e))
        \<and> (\<forall>e'. putOutcome (computeAudienceSummaryKey uuid mth (partString partObj)) 0 = Some e'
                \<and> n < 3
           \<longrightarrow> outcome (recomputeAudienceForMonth env statsBlobs putOutcome n uuid mth partObj)
               = Inl (ErrorPuttingAudienceSummary mth uuid e')))
     \<and> putsTo (computeAudienceSummaryKey uuid mth (partString partObj))
          (recomputeAudienceForMonth env statsBlobs putOutcome n uuid mth partObj) = 1
     \<and> length (puts (recomputeAudienceForMonth env statsBlobs putOutcome n uuid mth partObj))
         = putsTo (computeAudienceKey uuid mth (partString partObj))
             (recomputeAudienceForMonth env statsBlobs putOutcome n uuid mth partObj) + 1"
proof -
  let ?run = "recomputeAudienceForMonth env statsBlobs putOutcome n uuid mth partObj"
  let ?key = "computeAudienceKey uuid mth (partString partObj)"
  let ?skey = "computeAudienceSummaryKey uuid mth (partString partObj)"
  let ?fn = "audienceAttempt putOutcome uuid mth partObj acc"
  let ?w = "putAudienceWithRetries env putOutcome uuid mth partObj acc"
  have "?fn = putAudience putOutcome ?key (81 * audience_acc.count acc)
      (audienceChunks (audience_acc.audienceTimestamps acc))"
    by (rule ext) (simp add: audienceAttempt_def)
  then have w: "?w = retryFrom ?fn (isRetryableErrorFromR2 env) 2 0"
    by (simp add: putAudienceWithRetries_def executeWithRetries_def)
  note out = outcome_collected [OF collect, of putOutcome n]
  note count = putsTo_collected [OF collect, of putOutcome n]
  have succeeds: "putsTo ?key ?run = failures + 1
      \<and> (putOutcome ?skey 0 = None
         \<longrightarrow> outcome ?run = Inr \<lparr> audience = audience_acc.count acc,
               contentLength = 81 * audience_acc.count acc, part = partString partObj \<rparr>)
      \<and> (\<forall>e'. putOutcome ?skey 0 = Some e'
         \<longrightarrow> outcome ?run = Inl (ErrorPuttingAudienceSummary mth uuid e'))"
    if k: "failures \<le> 2"
      and fails: "\<forall>i<failures. \<exists>e. ?fn i = Inl e \<and> isRetryableErrorFromR2 env e"
      and ok: "?fn failures = Inr ()"
  proof -
    from fails have "\<forall>i<failures. \<exists>e. ?fn (0 + i) = Inl e \<and> isRetryableErrorFromR2 env e"
      by simp
    moreover from ok have "?fn (0 + failures) = Inr ()"
      by simp
    ultimately have "retryFrom ?fn (isRetryableErrorFromR2 env) 2 0 = (Inr (), Suc (0 + failures))"
      using k by (rule retryFrom_succeeds)
    then have "?w = (Inr (), failures + 1)"
      by (simp add: w)
    then show ?thesis
      by (simp add: out count(1) promiseAll_def putAudienceSummary_def)
  qed
  have exhausted: "putsTo ?key ?run = 3
      \<and> (\<exists>e. ?fn 2 = Inl e \<and> isRetryableErrorFromR2 env e
            \<and> (putOutcome ?skey 0 = None \<or> 3 \<le> n \<longrightarrow> outcome ?run = Inl e))
      \<and> (\<forall>e'. putOutcome ?skey 0 = Some e' \<and> n < 3
         \<longrightarrow> outcome ?run = Inl (ErrorPuttingAudienceSummary mth uuid e'))"
    if fails: "\<forall>i<3. \<exists>e. ?fn i = Inl e \<and> isRetryableErrorFromR2 env e"
  proof -
    from fails have "\<forall>i\<le>2. \<exists>e. ?fn (0 + i) = Inl e \<and> isRetryableErrorFromR2 env e"
      by (simp add: less_Suc_eq_le [symmetric] numeral_3_eq_3 numeral_2_eq_2)
    from retryFrom_exhausted [OF this] have r: "?w = (?fn 2, 3)"
      by (simp add: w numeral_2_eq_2 numeral_3_eq_3)
    have "(2::nat) < 3"
      by simp
    with fails obtain e where e: "?fn 2 = Inl e" "isRetryableErrorFromR2 env e"
      by blast
    from r e show ?thesis
      by (auto simp: out count(1) promiseAll_def putAudienceSummary_def split: option.splits)
  qed
  have calls: "length (puts ?run) = putsTo ?key ?run + 1"
    by (simp add: count(1) count(3))
  from succeeds exhausted count(2) calls show ?thesis
    by blast
qed

lemma exampleAudience_attempt:
  "audienceAttempt putOutcome exampleShow ''2024-03'' None
     \<lparr> audience_acc.audienceTimestamps =
         [(''0a00000000000000000000000000000000000000000000000000000000000001'',
           ''240305101500000''),
          (''4b00000000000000000000000000000000000000000000000000000000000002'',
           ''240305101600000''),
          (''cf00000000000000000000000000000000000000000000000000000000000003'',
           ''240305101700000'')],
       dailyFoundAudience = [(''2024-03-05'', 4)],
       audience_acc.count = 3 \<rparr> i
   = (case putOutcome (computeAudienceKey exampleShow ''2024-03'' None) i of
        Some e \<Rightarrow> Inl e
      | None \<Rightarrow> Inr ())"
proof -
  have "ascii (audienceLines
      [(''0a00000000000000000000000000000000000000000000000000000000000001'',
        ''240305101500000''),
       (''4b00000000000000000000000000000000000000000000000000000000000002'',
        ''240305101600000''),
       (''cf00000000000000000000000000000000000000000000000000000000000003'',
        ''240305101700000'')])"
    by (simp add: audienceLines_def ascii_def)
  from encode_ascii [OF this] show ?thesis
    by (simp add: audienceAttempt_def putAudience_def audienceChunks_encode partString_def
        audienceLines_def)
qed

lemma exampleKeys_differ:
  "computeAudienceSummaryKey exampleShow ''2024-03'' None
     \<noteq> computeAudienceKey exampleShow ''2024-03'' None"
  using audience_key_not_summary_key [of exampleShow "''2024-03''" None exampleShow "''2024-03''" None]
  by simp

theorem audience_put_is_retried_twice_witness:
  "outcome (recomputeAudienceForMonth exampleImported exampleAudienceBlobs transientTwice 1
      exampleShow ''2024-03'' None)
     = Inr \<lparr> audience = 3, contentLength = 243, part = None \<rparr>
   \<and> putsTo (computeAudienceKey exampleShow ''2024-03'' None)
       (recomputeAudienceForMonth exampleImported exampleAudienceBlobs transientTwice 1
          exampleShow ''2024-03'' None) = 3
   \<and> outcome (recomputeAudienceForMonth exampleImported exampleAudienceBlobs transientAlways 0
        exampleShow ''2024-03'' None)
       = Inl (StorageError ''transient'')
   \<and> putsTo (computeAudienceKey exampleShow ''2024-03'' None)
       (recomputeAudienceForMonth exampleImported exampleAudienceBlobs transientAlways 0
          exampleShow ''2024-03'' None) = 3
   \<and> putsTo (computeAudienceSummaryKey exampleShow ''2024-03'' None)
       (recomputeAudienceForMonth exampleImported exampleAudienceBlobs transientAlways 0
          exampleShow ''2024-03'' None) = 1
   \<and> outcome (recomputeAudienceForMonth exampleImported exampleAudienceBlobs bothFail 3
        exampleShow ''2024-03'' None)
       = Inl (StorageError ''transient'')
   \<and> isRetryableErrorFromR2 exampleImported (StorageError ''transient'')"
proof -
  let ?acc = "\<lparr> audience_acc.audienceTimestamps =
      [(''0a00000000000000000000000000000000000000000000000000000000000001'',
        ''240305101500000''),
       (''4b00000000000000000000000000000000000000000000000000000000000002'',
        ''240305101600000''),
       (''cf00000000000000000000000000000000000000000000000000000000000003'',
        ''240305101700000'')],
      dailyFoundAudience = [(''2024-03-05'', 4)],
      audience_acc.count = 3 \<rparr>"
  let ?key = "computeAudienceKey exampleShow ''2024-03'' (partString None)"
  let ?skey = "computeAudienceSummaryKey exampleShow ''2024-03'' (partString None)"
  let ?run = "\<lambda>putOutcome n. recomputeAudienceForMonth exampleImported exampleAudienceBlobs
      putOutcome n exampleShow ''2024-03'' None"
  have retryable: "isRetryableErrorFromR2 exampleImported (StorageError ''transient'')"
    by (simp add: exampleImported_def)
  note inst = audience_put_is_retried_twice [OF exampleAudience_collect]
  note attempt = exampleAudience_attempt
  have t0: "(2::nat) \<le> 2"
    by simp
  have t1: "\<forall>i<2. \<exists>e. audienceAttempt transientTwice exampleShow ''2024-03'' None ?acc i = Inl e
      \<and> isRetryableErrorFromR2 exampleImported e"
    using retryable by (simp add: attempt transientTwice_def)
  have t2: "audienceAttempt transientTwice exampleShow ''2024-03'' None ?acc 2 = Inr ()"
    by (simp add: attempt transientTwice_def)
  have t3: "transientTwice ?skey 0 = None"
    using exampleKeys_differ by (simp add: transientTwice_def partString_def)
  from inst [of 2 transientTwice 1] t0 t1 t2 t3
  have "outcome (?run transientTwice 1)
      = Inr \<lparr> audience = audience_acc.count ?acc, contentLength = 81 * audience_acc.count ?acc,
              part = partString None \<rparr>"
    and "putsTo ?key (?run transientTwice 1) = 2 + 1"
    by blast+
  then have c1: "outcome (?run transientTwice 1)
      = Inr \<lparr> audience = 3, contentLength = 243, part = None \<rparr>"
    and c2: "putsTo (computeAudienceKey exampleShow ''2024-03'' None) (?run transientTwice 1) = 3"
    by (simp_all add: partString_def)
  have a1: "\<forall>i<3. \<exists>e. audienceAttempt transientAlways exampleShow ''2024-03'' None ?acc i = Inl e
      \<and> isRetryableErrorFromR2 exampleImported e"
    using retryable by (simp add: attempt transientAlways_def)
  have a2: "audienceAttempt transientAlways exampleShow ''2024-03'' None ?acc 2
      = Inl (StorageError ''transient'')"
    by (simp add: attempt transientAlways_def)
  have a3: "transientAlways ?skey 0 = None"
    using exampleKeys_differ by (simp add: transientAlways_def partString_def)
  from inst [of 0 transientAlways 0] a1
  have "\<exists>e. audienceAttempt transientAlways exampleShow ''2024-03'' None ?acc 2 = Inl e
      \<and> (transientAlways ?skey 0 = None \<or> 3 \<le> (0::nat)
          \<longrightarrow> outcome (?run transientAlways 0) = Inl e)"
    and "putsTo ?key (?run transientAlways 0) = 3"
    and "putsTo ?skey (?run transientAlways 0) = 1"
    by blast+
  with a2 a3 have c3: "outcome (?run transientAlways 0) = Inl (StorageError ''transient'')"
    and c4: "putsTo (computeAudienceKey exampleShow ''2024-03'' None) (?run transientAlways 0) = 3"
    and c5: "putsTo (computeAudienceSummaryKey exampleShow ''2024-03'' None)
        (?run transientAlways 0) = 1"
    by (auto simp: partString_def)
  have b1: "\<forall>i<3. \<exists>e. audienceAttempt bothFail exampleShow ''2024-03'' None ?acc i = Inl e
      \<and> isRetryableErrorFromR2 exampleImported e"
    using retryable by (simp add: attempt bothFail_def)
  have b2: "audienceAttempt bothFail exampleShow ''2024-03'' None ?acc 2
      = Inl (StorageError ''transient'')"
    by (simp add: attempt bothFail_def)
  from inst [of 0 bothFail 3] b1
  have "\<exists>e. audienceAttempt bothFail exampleShow ''2024-03'' None ?acc 2 = Inl e
      \<and> (bothFail ?skey 0 = None \<or> 3 \<le> (3::nat) \<longrightarrow> outcome (?run bothFail 3) = Inl e)"
    by blast
  with b2 have c6: "outcome (?run bothFail 3) = Inl (StorageError ''transient'')"
    by auto
  from c1 c2 c3 c4 c5 c6 retryable show ?thesis
    by blast
qed

text \<open>
  The claim as stated fails: it has the transient error reach the caller whenever the
  put of the audience blob fails three times. On the store where the put of the summary
  fails too, and settles before the first put of the audience blob, the three puts of
  the audience blob fail with a retryable error and the caller gets the error of the
  summary.
\<close>

theorem failed_summary_put_hides_transient_error:
  "outcome (recomputeAudienceForMonth exampleImported exampleAudienceBlobs bothFail 0
      exampleShow ''2024-03'' None)
     = Inl (ErrorPuttingAudienceSummary ''2024-03'' exampleShow (StorageError ''down''))
   \<and> bothFail (computeAudienceKey exampleShow ''2024-03'' None) 0 = Some (StorageError ''transient'')
   \<and> bothFail (computeAudienceKey exampleShow ''2024-03'' None) 1 = Some (StorageError ''transient'')
   \<and> bothFail (computeAudienceKey exampleShow ''2024-03'' None) 2 = Some (StorageError ''transient'')
   \<and> isRetryableErrorFromR2 exampleImported (StorageError ''transient'')
   \<and> putsTo (computeAudienceKey exampleShow ''2024-03'' None)
       (recomputeAudienceForMonth exampleImported exampleAudienceBlobs bothFail 0
          exampleShow ''2024-03'' None) = 3"
proof -
  let ?acc = "\<lparr> audience_acc.audienceTimestamps =
      [(''0a00000000000000000000000000000000000000000000000000000000000001'',
        ''240305101500000''),
       (''4b00000000000000000000000000000000000000000000000000000000000002'',
        ''240305101600000''),
       (''cf00000000000000000000000000000000000000000000000000000000000003'',
        ''240305101700000'')],
      dailyFoundAudience = [(''2024-03-05'', 4)],
      audience_acc.count = 3 \<rparr>"
  have retryable: "isRetryableErrorFromR2 exampleImported (StorageError ''transient'')"
    by (simp add: exampleImported_def)
  have "audienceAttempt bothFail exampleShow ''2024-03'' None ?acc
      = putAudience bothFail (computeAudienceKey exampleShow ''2024-03'' (partString None))
          (81 * audience_acc.count ?acc) (audienceChunks (audience_acc.audienceTimestamps ?acc))"
    by (rule ext) (simp add: audienceAttempt_def)
  then have "putAudienceWithRetries exampleImported bothFail exampleShow ''2024-03'' None ?acc
      = retryFrom (audienceAttempt bothFail exampleShow ''2024-03'' None ?acc)
          (isRetryableErrorFromR2 exampleImported) 2 0"
    by (simp add: putAudienceWithRetries_def executeWithRetries_def)
  then have w: "putAudienceWithRetries exampleImported bothFail exampleShow ''2024-03'' None ?acc
      = (Inl (StorageError ''transient''), 3)"
    using retryable
    by (simp add: exampleAudience_attempt numeral_2_eq_2 bothFail_def)
  have out: "outcome (recomputeAudienceForMonth exampleImported exampleAudienceBlobs bothFail 0
      exampleShow ''2024-03'' None)
    = Inl (ErrorPuttingAudienceSummary ''2024-03'' exampleShow (StorageError ''down''))"
    using exampleKeys_differ
    by (simp add: outcome_collected [OF exampleAudience_collect] w promiseAll_def
        putAudienceSummary_def bothFail_def partString_def)
  have calls: "putsTo (computeAudienceKey exampleShow ''2024-03'' None)
      (recomputeAudienceForMonth exampleImported exampleAudienceBlobs bothFail 0
         exampleShow ''2024-03'' None) = 3"
    using putsTo_collected(1) [OF exampleAudience_collect, of bothFail 0]
    by (simp add: w partString_def)
  from out calls retryable show ?thesis
    by (simp add: bothFail_def)
qed

end
